theory Spec2Isabelle
  imports Complex_Main "HOL-Library.AList" "HOL-Library.Sublist"
begin

section \<open>Data model (src/models/types.ts)\<close>

text \<open>
  JavaScript strings are modelled as \<open>string\<close>; a character stands for one code unit
  below 256. ISO timestamps (\<open>nowIso()\<close>) and \<open>Date.now()\<close> are both readings of the
  clock and are modelled as a number of milliseconds: \<open>new Date(iso).getTime()\<close> gives
  back the reading an ISO string was made from. A JavaScript \<open>Map\<close> is an association
  list: \<open>AList.update\<close> stores in place or appends, as \<open>Map.set\<close> does, \<open>map_of\<close> is
  \<open>Map.get\<close>, \<open>AList.delete\<close> is \<open>Map.delete\<close>, and the length is \<open>Map.size\<close>.
\<close>

record HostRecord =
  hid :: string
  name :: string
  address :: string
  os :: string
  tags :: "string list"
  enabled :: bool
  groups :: "string list option"
  hostNotes :: "string option"
  lastSeenAt :: "string option"

datatype DeploymentAction = Detect | Upload | Erase

datatype JobMode = Normal | DryRun

datatype JobState = Queued | Running | Succeeded | Failed | Cancelled | Skipped

datatype ResultStatus = OK | ERROR | TIMEOUT

record JobMetrics =
  queuedAt :: int
  startedAt :: "int option"
  completedAt :: "int option"
  elapsedMs :: "int option"
  attempt :: nat

record DeploymentResult =
  rstatus :: ResultStatus
  port :: "string option"
  relapsedMs :: "int option"
  logs :: "string list"
  rerror :: "string option"
  checksum :: "string option"

record DeploymentJob =
  jid :: string
  hostId :: string
  action :: DeploymentAction
  profileId :: string
  sketchPath :: "string option"
  hexPath :: "string option"
  mode :: JobMode
  status :: JobState
  metrics :: JobMetrics
  result :: "DeploymentResult option"
  error :: "string option"

record DeploymentProfile =
  pid :: string
  fqbn :: string
  maxParallelP :: int
  timeoutMs :: int
  retryCountP :: "int option"

text \<open>
  The context of a job. The queue only stores it and hands it to the executor; the
  executor of the deployment manager reads \<open>context.host\<close>. The fields \<open>config\<close> and
  \<open>options\<close> are read by no function modelled here and are left out.
\<close>

record DeploymentContext =
  profile :: DeploymentProfile
  host :: HostRecord

record QueueSnapshot =
  snapJobs :: "DeploymentJob list"
  activeCount :: nat
  waitingCount :: nat
  completedCount :: nat
  failedCount :: nat

record QueueTelemetry =
  averageDurationMs :: rat
  throughputPerMinute :: nat
  successRate :: rat
  failureRate :: rat

section \<open>The job queue (class JobQueue)\<close>

record JobQueueOptions =
  maxParallel :: int
  retryCount :: int
  throttleMs :: int
  metricsWindowSize :: "int option"

record PartialJobQueueOptions =
  maxParallelO :: "int option"
  retryCountO :: "int option"
  throttleMsO :: "int option"
  metricsWindowSizeO :: "int option"

record EnqueueJobInput =
  hostIdI :: string
  actionI :: DeploymentAction
  profileIdI :: string
  sketchPathI :: "string option"
  hexPathI :: "string option"
  modeI :: "JobMode option"
  contextI :: DeploymentContext

text \<open>
  What an executor promise is rejected with: an instance of \<open>Error\<close> or of a subclass,
  with its \<open>name\<close> (\<open>Error\<close> for \<open>new Error(...)\<close>) and its \<open>message\<close>, or any other
  value, given by its image under \<open>String\<close>. \<open>String\<close> of an error is
  \<open>Error.prototype.toString\<close>: the name, a colon and the message, or only one of them
  when the other is empty.
\<close>

datatype thrown = ErrorObject string string | OtherValue string

fun String_of :: "thrown \<Rightarrow> string" where
  "String_of (ErrorObject n m) = (if n = [] then m else if m = [] then n else n @ '': '' @ m)"
| "String_of (OtherValue v) = v"

text \<open>\<open>error instanceof Error ? error.message : String(error)\<close>.\<close>

fun message_of :: "thrown \<Rightarrow> string" where
  "message_of (ErrorObject n m) = m"
| "message_of (OtherValue v) = v"

text \<open>
  Effects. Every \<open>emitter.emit\<close>, every \<open>jobSubject.next\<close> and every call of the executor
  is appended to the field \<open>emitted\<close>; listeners are observers and do not call back into
  the queue. The calls of the logger are left out.
\<close>

datatype QueueEvent =
    JobEnqueued DeploymentJob
  | JobStarted DeploymentJob
  | JobCompleted DeploymentJob
  | JobFailed DeploymentJob thrown
  | JobRetried DeploymentJob nat
  | SnapshotEvent QueueSnapshot
  | JobsPublished "DeploymentJob list"
  | ExecutorCalled DeploymentJob DeploymentContext

text \<open>
  The asynchronous functions of the queue run to their next \<open>await\<close> and are resumed
  later. A suspended function is a value that holds the variables it captured:
  \<^item> \<open>AwaitExecutor job context\<close>: \<open>executeJob\<close> at \<open>await this.executor(job, context)\<close>;
  \<^item> \<open>AwaitRetryDelay job\<close>: \<open>handleJobFailure\<close> at \<open>await delay(100)\<close>;
  \<^item> \<open>AwaitFailureHandled job\<close>: \<open>executeJob\<close> at \<open>await this.handleJobFailure(...)\<close>,
    once \<open>handleJobFailure\<close> has returned; its \<open>finally\<close> block is still to run;
  \<^item> \<open>AwaitThrottle job context\<close>: \<open>processQueue\<close> at \<open>await delay(waitDuration)\<close>.
\<close>

datatype suspension =
    AwaitExecutor DeploymentJob DeploymentContext
  | AwaitRetryDelay DeploymentJob
  | AwaitFailureHandled DeploymentJob
  | AwaitThrottle DeploymentJob DeploymentContext

record JobQueue =
  options :: JobQueueOptions
  contextByJob :: "(string \<times> DeploymentContext) list"
  jobs :: "(string \<times> DeploymentJob) list"
  waitingQueue :: "string list"
  activeJobs :: "(string \<times> DeploymentJob \<times> DeploymentContext) list"
  completedDurations :: "int list"
  completionHistory :: "int list"
  running :: bool
  processing :: bool
  lastStartTimestamp :: int
  emitted :: "QueueEvent list"
  suspended :: "suspension list"

definition DEFAULT_OPTIONS :: JobQueueOptions where
  "DEFAULT_OPTIONS =
     \<lparr>maxParallel = 4, retryCount = 1, throttleMs = 0, metricsWindowSize = Some 50\<rparr>"

text \<open>\<open>{ ...DEFAULT_OPTIONS, ...options }\<close>: a field given in \<open>options\<close> wins. \<open>None\<close> is a field
  that is absent; a field present with the value \<open>undefined\<close> is not modelled.\<close>

definition mergeOptions :: "JobQueueOptions \<Rightarrow> PartialJobQueueOptions \<Rightarrow> JobQueueOptions" where
  "mergeOptions d p =
     \<lparr>maxParallel = (case maxParallelO p of Some v \<Rightarrow> v | None \<Rightarrow> maxParallel d),
      retryCount = (case retryCountO p of Some v \<Rightarrow> v | None \<Rightarrow> retryCount d),
      throttleMs = (case throttleMsO p of Some v \<Rightarrow> v | None \<Rightarrow> throttleMs d),
      metricsWindowSize =
        (case metricsWindowSizeO p of Some v \<Rightarrow> Some v | None \<Rightarrow> metricsWindowSize d)\<rparr>"

definition newJobQueue :: "PartialJobQueueOptions \<Rightarrow> JobQueue" where
  "newJobQueue p =
     \<lparr>options = mergeOptions DEFAULT_OPTIONS p, contextByJob = [], jobs = [],
      waitingQueue = [], activeJobs = [], completedDurations = [], completionHistory = [],
      running = False, processing = False, lastStartTimestamp = 0, emitted = [],
      suspended = []\<rparr>"

definition createInitialJob :: "int \<Rightarrow> string \<Rightarrow> EnqueueJobInput \<Rightarrow> DeploymentJob" where
  "createInitialJob now uuid input =
     \<lparr>jid = uuid, hostId = hostIdI input, action = actionI input,
      profileId = profileIdI input, sketchPath = sketchPathI input,
      hexPath = hexPathI input,
      mode = (case modeI input of Some m \<Rightarrow> m | None \<Rightarrow> Normal),
      status = Queued,
      metrics = \<lparr>queuedAt = now, startedAt = None, completedAt = None, elapsedMs = None,
                 attempt = 0\<rparr>,
      result = None, error = None\<rparr>"

definition getSnapshot :: "JobQueue \<Rightarrow> QueueSnapshot" where
  "getSnapshot q =
     (let js = map snd (jobs q) in
      \<lparr>snapJobs = js,
       activeCount = length (activeJobs q),
       waitingCount = length (waitingQueue q),
       completedCount = length (filter (\<lambda>job. status job = Succeeded) js),
       failedCount = length (filter (\<lambda>job. status job = Failed) js)\<rparr>)"

text \<open>\<open>Array.prototype.slice(start)\<close> with an integral start.\<close>

definition slice_from :: "int \<Rightarrow> 'a list \<Rightarrow> 'a list" where
  "slice_from k xs =
     (let len = int (length xs);
          start = (if k < 0 then max (len + k) 0 else min k len)
      in drop (nat start) xs)"

definition windowSize :: "JobQueue \<Rightarrow> int" where
  "windowSize q = (case metricsWindowSize (options q) of Some w \<Rightarrow> w | None \<Rightarrow> 50)"

text \<open>
  \<open>getTelemetry\<close>. The quotients of JavaScript numbers are taken as exact rationals.
  \<open>x || 1\<close> is 1 when the count \<open>x\<close> is 0.
\<close>

definition getTelemetry :: "int \<Rightarrow> JobQueue \<Rightarrow> QueueTelemetry" where
  "getTelemetry now q =
     (let durations = slice_from (- 1 * windowSize q) (completedDurations q);
          averageDuration =
            (if length durations \<noteq> 0
             then of_int (foldl (\<lambda>sum v. sum + v) 0 durations) / of_nat (length durations)
             else 0);
          completions = slice_from (- 1 * windowSize q) (completionHistory q);
          perMinuteWindow = filter (\<lambda>timestamp. now - timestamp \<le> 60000) completions;
          js = map snd (jobs q);
          n = length (filter (\<lambda>job. status job \<in> set [Succeeded, Failed]) js);
          total = (if n = 0 then 1 else n)
      in \<lparr>averageDurationMs = averageDuration,
          throughputPerMinute = length perMinuteWindow,
          successRate = of_nat (length (filter (\<lambda>job. status job = Succeeded) js)) / of_nat total,
          failureRate = of_nat (length (filter (\<lambda>job. status job = Failed) js)) / of_nat total\<rparr>)"

definition emit :: "QueueEvent \<Rightarrow> JobQueue \<Rightarrow> JobQueue" where
  "emit e q = q\<lparr>emitted := emitted q @ [e]\<rparr>"

definition publishJobs :: "JobQueue \<Rightarrow> JobQueue" where
  "publishJobs q = emit (SnapshotEvent (getSnapshot q)) (emit (JobsPublished (map snd (jobs q))) q)"

text \<open>
  \<open>startJob\<close>, up to and including the synchronous part of \<open>executeJob\<close>: the executor is
  called with the running job and \<open>executeJob\<close> is suspended on the promise it returns.
  The executor is an asynchronous function (the only one of this repository is
  \<open>DeploymentManager.executeJob\<close>), so its outcome arrives in a later step.
\<close>

definition startJob :: "int \<Rightarrow> DeploymentJob \<Rightarrow> DeploymentContext \<Rightarrow> JobQueue \<Rightarrow> JobQueue" where
  "startJob now job context q =
     (let attempt' = attempt (metrics job) + 1;
          runningJob = job\<lparr>status := Running,
                           metrics := (metrics job)\<lparr>attempt := attempt', startedAt := Some now\<rparr>\<rparr>;
          q1 = q\<lparr>jobs := AList.update (jid job) runningJob (jobs q),
                 activeJobs := AList.update (jid job) (runningJob, context) (activeJobs q)\<rparr>;
          q2 = emit (JobStarted runningJob) (publishJobs q1);
          q3 = emit (ExecutorCalled runningJob context) q2
      in q3\<lparr>suspended := suspended q3 @ [AwaitExecutor runningJob context]\<rparr>)"

text \<open>
  The loop of \<open>processQueue\<close>. It leaves through the \<open>finally\<close> block, which clears
  \<open>processing\<close>, or is suspended on the throttle delay with \<open>processing\<close> still set. One
  reading of the clock serves the whole synchronous run.
\<close>

function processLoop :: "int \<Rightarrow> JobQueue \<Rightarrow> JobQueue" where
  "processLoop now q =
     (if running q \<and> int (length (activeJobs q)) < maxParallel (options q) \<and> waitingQueue q \<noteq> []
      then
        (if hd (waitingQueue q) = [] then q\<lparr>waitingQueue := tl (waitingQueue q), processing := False\<rparr>
         else
           (case map_of (jobs q) (hd (waitingQueue q)) of
              None \<Rightarrow> processLoop now (q\<lparr>waitingQueue := tl (waitingQueue q)\<rparr>)
            | Some job \<Rightarrow>
               (case map_of (contextByJob q) (hd (waitingQueue q)) of
                  None \<Rightarrow> processLoop now (q\<lparr>waitingQueue := tl (waitingQueue q)\<rparr>)
                | Some context \<Rightarrow>
                   (if throttleMs (options q) > 0
                       \<and> now - lastStartTimestamp q < throttleMs (options q)
                    then q\<lparr>waitingQueue := tl (waitingQueue q),
                           suspended := suspended q @ [AwaitThrottle job context]\<rparr>
                    else processLoop now
                           (startJob now job context
                              (q\<lparr>waitingQueue := tl (waitingQueue q),
                                 lastStartTimestamp := now\<rparr>))))))
      else q\<lparr>processing := False\<rparr>)"
  by pat_completeness auto
termination
  by (relation "measure (\<lambda>(now, q). length (waitingQueue q))")
     (auto simp: startJob_def Let_def emit_def publishJobs_def)

declare processLoop.simps [simp del]

definition processQueue :: "int \<Rightarrow> JobQueue \<Rightarrow> JobQueue" where
  "processQueue now q =
     (if \<not> running q \<or> processing q then q else processLoop now (q\<lparr>processing := True\<rparr>))"

definition start :: "int \<Rightarrow> JobQueue \<Rightarrow> JobQueue" where
  "start now q = (if running q then q else processQueue now (q\<lparr>running := True\<rparr>))"

definition stop :: "JobQueue \<Rightarrow> JobQueue" where
  "stop q = q\<lparr>running := False\<rparr>"

text \<open>\<open>enqueue\<close>; \<open>uuid\<close> is the value \<open>uuidv4()\<close> returned.\<close>

definition enqueue :: "int \<Rightarrow> string \<Rightarrow> EnqueueJobInput \<Rightarrow> JobQueue \<Rightarrow> JobQueue" where
  "enqueue now uuid input q =
     (let job = createInitialJob now uuid input;
          q1 = q\<lparr>jobs := AList.update (jid job) job (jobs q),
                 waitingQueue := waitingQueue q @ [jid job],
                 contextByJob := AList.update (jid job) (contextI input) (contextByJob q)\<rparr>;
          q2 = emit (JobEnqueued job) (publishJobs q1)
      in processQueue now q2)"

text \<open>
  \<open>cancel\<close>. \<open>indexOf\<close> followed by \<open>splice(index, 1)\<close> removes the first occurrence, and
  nothing when there is none: that is \<open>remove1\<close>. The warning written to the logger when
  the job is active is not part of the state.
\<close>

definition cancel :: "int \<Rightarrow> string \<Rightarrow> JobQueue \<Rightarrow> JobQueue" where
  "cancel now jobId q =
     (case map_of (jobs q) jobId of
        None \<Rightarrow> q
      | Some job \<Rightarrow>
          if jobId \<in> set (map fst (activeJobs q)) then q
          else
            (let cancelledJob = job\<lparr>status := Cancelled,
                                    metrics := (metrics job)\<lparr>completedAt := Some now,
                                                            elapsedMs := Some 0\<rparr>\<rparr>;
                 q1 = q\<lparr>waitingQueue := remove1 jobId (waitingQueue q),
                        jobs := AList.update jobId cancelledJob (jobs q)\<rparr>
             in emit (JobCompleted cancelledJob) (publishJobs q1)))"

definition cancelAll :: "int \<Rightarrow> JobQueue \<Rightarrow> JobQueue" where
  "cancelAll now q = foldl (\<lambda>q' jobId. cancel now jobId q') q (waitingQueue q)"

definition getJob :: "JobQueue \<Rightarrow> string \<Rightarrow> DeploymentJob option" where
  "getJob q jobId = map_of (jobs q) jobId"

definition computeDuration :: "int option \<Rightarrow> int \<Rightarrow> int" where
  "computeDuration startIso endIso =
     (case startIso of None \<Rightarrow> 0 | Some startMs \<Rightarrow> max 0 (endIso - startMs))"

text \<open>\<open>if (job.metrics.elapsedMs)\<close> holds for a number that is defined and not 0.\<close>

definition trackMetrics :: "int \<Rightarrow> DeploymentJob \<Rightarrow> JobQueue \<Rightarrow> JobQueue" where
  "trackMetrics now job q =
     (let q1 = (case elapsedMs (metrics job) of
                  None \<Rightarrow> q
                | Some e \<Rightarrow>
                    if e = 0 then q
                    else (let ds = completedDurations q @ [e]
                          in q\<lparr>completedDurations :=
                                 (if int (length ds) > windowSize q then tl ds else ds)\<rparr>));
          h = completionHistory q1 @ [now]
      in q1\<lparr>completionHistory := (if length h > 200 then tl h else h)\<rparr>)"

text \<open>The \<open>finally\<close> block of \<open>executeJob\<close>.\<close>

definition executeJob_finally :: "int \<Rightarrow> DeploymentJob \<Rightarrow> JobQueue \<Rightarrow> JobQueue" where
  "executeJob_finally now job q =
     processQueue now (publishJobs (q\<lparr>activeJobs := AList.delete (jid job) (activeJobs q)\<rparr>))"

text \<open>\<open>executeJob\<close> resumed with the result of the executor: the rest of the \<open>try\<close> block and
  the \<open>finally\<close> block run without a further \<open>await\<close>.\<close>

definition executeJob_resolved ::
  "int \<Rightarrow> DeploymentJob \<Rightarrow> DeploymentResult \<Rightarrow> JobQueue \<Rightarrow> JobQueue" where
  "executeJob_resolved now job res q =
     (let completedAt' = now;
          elapsed = (case relapsedMs res of
                       Some e \<Rightarrow> e
                     | None \<Rightarrow>
                         computeDuration
                           (Some (case startedAt (metrics job) of
                                    Some s \<Rightarrow> s | None \<Rightarrow> queuedAt (metrics job)))
                           completedAt');
          completedJob = job\<lparr>status := (if rstatus res = OK then Succeeded
                                          else if rstatus res = TIMEOUT then Failed else Failed),
                             metrics := (metrics job)\<lparr>completedAt := Some completedAt',
                                                     elapsedMs := Some elapsed\<rparr>,
                             result := Some res,
                             error := rerror res\<rparr>;
          q1 = q\<lparr>jobs := AList.update (jid job) completedJob (jobs q)\<rparr>;
          q2 = emit (JobCompleted completedJob) (trackMetrics now completedJob q1)
      in executeJob_finally now job q2)"

text \<open>
  \<open>handleJobFailure\<close>, called in the \<open>catch\<close> block of \<open>executeJob\<close>, up to its
  \<open>await delay(100)\<close> (retry) or to its end (failure). In both cases \<open>executeJob\<close> is
  left waiting on the promise of \<open>handleJobFailure\<close>.
\<close>

definition handleJobFailure :: "int \<Rightarrow> DeploymentJob \<Rightarrow> thrown \<Rightarrow> JobQueue \<Rightarrow> JobQueue" where
  "handleJobFailure now job err q =
     (let attemptsRemaining = retryCount (options q) - int (attempt (metrics job)) in
      if attemptsRemaining > 0 then
        (let retriedJob = job\<lparr>status := Queued,
                              metrics := (metrics job)\<lparr>startedAt := None, completedAt := None,
                                                      elapsedMs := None\<rparr>,
                              error := Some (String_of err)\<rparr>;
             q1 = q\<lparr>jobs := AList.update (jid job) retriedJob (jobs q),
                    waitingQueue := waitingQueue q @ [jid job]\<rparr>;
             q2 = publishJobs (emit (JobRetried retriedJob (attempt (metrics retriedJob) + 1)) q1)
         in q2\<lparr>suspended := suspended q2 @ [AwaitRetryDelay job]\<rparr>)
      else
        (let completedAt' = now;
             failedJob = job\<lparr>status := Failed,
                             metrics := (metrics job)
                               \<lparr>completedAt := Some completedAt',
                                elapsedMs := Some (computeDuration
                                  (Some (case startedAt (metrics job) of
                                           Some s \<Rightarrow> s | None \<Rightarrow> queuedAt (metrics job)))
                                  completedAt')\<rparr>,
                             error := Some (message_of err)\<rparr>;
             q1 = q\<lparr>jobs := AList.update (jid job) failedJob (jobs q)\<rparr>;
             q2 = emit (JobFailed failedJob err) q1
         in q2\<lparr>suspended := suspended q2 @ [AwaitFailureHandled job]\<rparr>))"

text \<open>\<open>handleJobFailure\<close> resumed after \<open>delay(100)\<close>: it calls \<open>processQueue\<close> and returns.\<close>

definition handleJobFailure_resumed :: "int \<Rightarrow> DeploymentJob \<Rightarrow> JobQueue \<Rightarrow> JobQueue" where
  "handleJobFailure_resumed now job q =
     (let q1 = processQueue now q in q1\<lparr>suspended := suspended q1 @ [AwaitFailureHandled job]\<rparr>)"

text \<open>\<open>processQueue\<close> resumed after the throttle delay: it starts the job it had taken
  from the FIFO and goes on with the loop.\<close>

definition processQueue_resumed ::
  "int \<Rightarrow> DeploymentJob \<Rightarrow> DeploymentContext \<Rightarrow> JobQueue \<Rightarrow> JobQueue" where
  "processQueue_resumed now job context q =
     processLoop now (startJob now job context (q\<lparr>lastStartTimestamp := now\<rparr>))"

subsection \<open>Steps of the queue\<close>

text \<open>
  A step is a call of a public method, or the resumption of a suspended function. Each
  step runs to completion at one reading \<open>now\<close> of the clock. \<open>Enqueue uuid input\<close>
  carries the identifier drawn by \<open>uuidv4()\<close>, which is not empty and was not drawn before.
\<close>

datatype step =
    Start
  | Stop
  | Enqueue string EnqueueJobInput
  | Cancel string
  | CancelAll
  | ExecutorResolves DeploymentJob DeploymentContext DeploymentResult
  | ExecutorRejects DeploymentJob DeploymentContext thrown
  | RetryDelayElapsed DeploymentJob
  | FailureHandled DeploymentJob
  | ThrottleElapsed DeploymentJob DeploymentContext

definition resume :: "suspension \<Rightarrow> JobQueue \<Rightarrow> JobQueue" where
  "resume x q = q\<lparr>suspended := remove1 x (suspended q)\<rparr>"

fun fire :: "int \<Rightarrow> step \<Rightarrow> JobQueue \<Rightarrow> JobQueue option" where
  "fire now Start q = Some (start now q)"
| "fire now Stop q = Some (stop q)"
| "fire now (Enqueue uuid input) q =
     (if uuid = [] \<or> uuid \<in> set (map fst (jobs q)) then None
      else Some (enqueue now uuid input q))"
| "fire now (Cancel jobId) q = Some (cancel now jobId q)"
| "fire now CancelAll q = Some (cancelAll now q)"
| "fire now (ExecutorResolves job context res) q =
     (if AwaitExecutor job context \<in> set (suspended q)
      then Some (executeJob_resolved now job res (resume (AwaitExecutor job context) q))
      else None)"
| "fire now (ExecutorRejects job context err) q =
     (if AwaitExecutor job context \<in> set (suspended q)
      then Some (handleJobFailure now job err (resume (AwaitExecutor job context) q))
      else None)"
| "fire now (RetryDelayElapsed job) q =
     (if AwaitRetryDelay job \<in> set (suspended q)
      then Some (handleJobFailure_resumed now job (resume (AwaitRetryDelay job) q))
      else None)"
| "fire now (FailureHandled job) q =
     (if AwaitFailureHandled job \<in> set (suspended q)
      then Some (executeJob_finally now job (resume (AwaitFailureHandled job) q))
      else None)"
| "fire now (ThrottleElapsed job context) q =
     (if AwaitThrottle job context \<in> set (suspended q)
      then Some (processQueue_resumed now job context (resume (AwaitThrottle job context) q))
      else None)"

fun run :: "(int \<times> step) list \<Rightarrow> JobQueue \<Rightarrow> JobQueue option" where
  "run [] q = Some q"
| "run ((now, a) # rest) q = (case fire now a q of None \<Rightarrow> None | Some q' \<Rightarrow> run rest q')"

inductive reachable :: "PartialJobQueueOptions \<Rightarrow> JobQueue \<Rightarrow> bool" for p where
  reachable_new: "reachable p (newJobQueue p)"
| reachable_fire: "reachable p q \<Longrightarrow> fire now a q = Some q' \<Longrightarrow> reachable p q'"

subsection \<open>Schedules\<close>

text \<open>
  A schedule names the suspended function to resume by the identifier of its job and by
  what wakes it: the executor promise settling (rejected with a thrown value or resolved
  with a result), the retry delay or the throttle delay elapsing, or the promise of
  \<open>handleJobFailure\<close> having resolved. The oldest such suspension of the job is resumed.
\<close>

fun jobOf :: "suspension \<Rightarrow> DeploymentJob" where
  "jobOf (AwaitExecutor job context) = job"
| "jobOf (AwaitRetryDelay job) = job"
| "jobOf (AwaitFailureHandled job) = job"
| "jobOf (AwaitThrottle job context) = job"

datatype wake = Settles "thrown + DeploymentResult" | RetryDelay | Handled | Throttle

fun resumption :: "wake \<Rightarrow> suspension \<Rightarrow> step option" where
  "resumption (Settles (Inl err)) (AwaitExecutor job context) =
     Some (ExecutorRejects job context err)"
| "resumption (Settles (Inr res)) (AwaitExecutor job context) =
     Some (ExecutorResolves job context res)"
| "resumption RetryDelay (AwaitRetryDelay job) = Some (RetryDelayElapsed job)"
| "resumption Handled (AwaitFailureHandled job) = Some (FailureHandled job)"
| "resumption Throttle (AwaitThrottle job context) = Some (ThrottleElapsed job context)"
| "resumption w x = None"

definition pendingStep :: "string \<Rightarrow> wake \<Rightarrow> JobQueue \<Rightarrow> step option" where
  "pendingStep jobId w q =
     (case find (\<lambda>x. jid (jobOf x) = jobId \<and> resumption w x \<noteq> None) (suspended q) of
        None \<Rightarrow> None
      | Some x \<Rightarrow> resumption w x)"

definition resumeJob :: "int \<Rightarrow> string \<Rightarrow> wake \<Rightarrow> JobQueue \<Rightarrow> JobQueue option" where
  "resumeJob now jobId w q =
     (case pendingStep jobId w q of None \<Rightarrow> None | Some a \<Rightarrow> fire now a q)"

datatype stimulus = Call step | Resume string wake

fun schedule :: "(int \<times> stimulus) list \<Rightarrow> JobQueue \<Rightarrow> JobQueue option" where
  "schedule [] q = Some q"
| "schedule ((now, Call a) # rest) q =
     (case fire now a q of None \<Rightarrow> None | Some q' \<Rightarrow> schedule rest q')"
| "schedule ((now, Resume jobId w) # rest) q =
     (case resumeJob now jobId w q of None \<Rightarrow> None | Some q' \<Rightarrow> schedule rest q')"

text \<open>
  The next suspension of a job to resume when its executor settles with \<open>outcome\<close> at
  every call: a resolved promise of \<open>handleJobFailure\<close> first, then an elapsed delay,
  then the executor.
\<close>

definition nextStep :: "string \<Rightarrow> thrown + DeploymentResult \<Rightarrow> JobQueue \<Rightarrow> step option" where
  "nextStep jobId outcome q =
     (case pendingStep jobId Handled q of
        Some a \<Rightarrow> Some a
      | None \<Rightarrow>
         (case pendingStep jobId RetryDelay q of
            Some a \<Rightarrow> Some a
          | None \<Rightarrow>
             (case pendingStep jobId Throttle q of
                Some a \<Rightarrow> Some a
              | None \<Rightarrow> pendingStep jobId (Settles outcome) q)))"

text \<open>Resume the suspensions of one job until none is left; \<open>None\<close> when the fuel runs
  out first.\<close>

fun settle :: "nat \<Rightarrow> int \<Rightarrow> string \<Rightarrow> thrown + DeploymentResult \<Rightarrow> JobQueue \<Rightarrow> JobQueue option" where
  "settle 0 now jobId outcome q =
     (case nextStep jobId outcome q of None \<Rightarrow> Some q | Some a \<Rightarrow> None)"
| "settle (Suc n) now jobId outcome q =
     (case nextStep jobId outcome q of
        None \<Rightarrow> Some q
      | Some a \<Rightarrow>
         (case fire now a q of None \<Rightarrow> None | Some q' \<Rightarrow> settle n now jobId outcome q'))"

text \<open>The number of calls of the executor made for a job.\<close>

fun isCallFor :: "string \<Rightarrow> QueueEvent \<Rightarrow> bool" where
  "isCallFor jobId (ExecutorCalled job context) = (jid job = jobId)"
| "isCallFor jobId e = False"

definition invocations :: "JobQueue \<Rightarrow> string \<Rightarrow> nat" where
  "invocations q jobId = length (filter (isCallFor jobId) (emitted q))"

text \<open>The number of jobs of the job table in a given state.\<close>

definition countStatus :: "JobState \<Rightarrow> JobQueue \<Rightarrow> nat" where
  "countStatus st q = length (filter (\<lambda>job. status job = st) (map snd (jobs q)))"

section \<open>The executor of the deployment manager (class DeploymentManager)\<close>

record DeploymentStrategy =
  sid :: string
  label :: string
  supports :: "HostRecord \<Rightarrow> bool"

definition getStrategyForHost ::
  "(string \<times> DeploymentStrategy) list \<Rightarrow> HostRecord \<Rightarrow> DeploymentStrategy option" where
  "getStrategyForHost strategies h = find (\<lambda>strategy. supports strategy h) (map snd strategies)"

definition noStrategyMessage :: "HostRecord \<Rightarrow> string" where
  "noStrategyMessage h =
     ''Aucune strat'' @ [char_of (233::nat)] @ ''gie de d'' @ [char_of (233::nat)]
       @ ''ploiement disponible pour '' @ os h"

text \<open>
  \<open>DeploymentManager.executeJob\<close>: \<open>Inl e\<close> when it throws \<open>e\<close>, \<open>Inr strategy\<close> when it
  returns the promise of \<open>strategy.execute(job, context)\<close>, a remote call.
\<close>

definition executeJob ::
  "(string \<times> DeploymentStrategy) list \<Rightarrow> DeploymentJob \<Rightarrow> DeploymentContext
     \<Rightarrow> thrown + DeploymentStrategy" where
  "executeJob strategies job context =
     (case getStrategyForHost strategies (host context) of
        None \<Rightarrow> Inl (ErrorObject ''Error'' (noStrategyMessage (host context)))
      | Some strategy \<Rightarrow> Inr strategy)"

section \<open>The host registry (class HostRegistry)\<close>

record HostGroup =
  gid :: string
  groupLabel :: string
  description :: "string option"
  hostIds :: "string list"
  groupTags :: "string list option"

record HostRegistrySnapshot =
  snapHosts :: "HostRecord list"
  snapGroups :: "HostGroup list"

text \<open>The registry: its two maps and the last value of its \<open>BehaviorSubject\<close>.\<close>

record HostRegistry =
  hosts :: "(string \<times> HostRecord) list"
  hostGroups :: "(string \<times> HostGroup) list"
  subject :: HostRegistrySnapshot

record ImportResult =
  added :: nat
  updated :: nat
  skipped :: nat

text \<open>The fields of \<open>defaults: Partial<HostRecord>\<close> that \<open>importFromCsv\<close> reads.\<close>

record HostDefaults =
  osD :: "string option"
  enabledD :: "bool option"
  groupsD :: "string list option"
  notesD :: "string option"
  lastSeenAtD :: "string option"

definition newHostRegistry :: "HostRecord list \<Rightarrow> HostGroup list \<Rightarrow> HostRegistry" where
  "newHostRegistry initialHosts initialGroups =
     (let hs = foldl (\<lambda>m h. AList.update (hid h) h m) [] initialHosts;
          gs = foldl (\<lambda>m g. AList.update (gid g) g m) [] initialGroups
      in \<lparr>hosts = hs, hostGroups = gs,
          subject = \<lparr>snapHosts = map snd hs, snapGroups = map snd gs\<rparr>\<rparr>)"

definition publish :: "HostRegistry \<Rightarrow> HostRegistry" where
  "publish r = r\<lparr>subject := \<lparr>snapHosts = map snd (hosts r), snapGroups = map snd (hostGroups r)\<rparr>\<rparr>"

definition getHostById :: "HostRegistry \<Rightarrow> string \<Rightarrow> HostRecord option" where
  "getHostById r hostId' = map_of (hosts r) hostId'"

subsection \<open>String operations of JavaScript\<close>

text \<open>White space and line terminators below 256, which \<open>trim\<close> removes.\<close>

definition isWhiteSpace :: "char \<Rightarrow> bool" where
  "isWhiteSpace c = (of_char c \<in> set [9, 10, 11, 12, 13, 32, 160 :: nat])"

definition trim :: "string \<Rightarrow> string" where
  "trim s = rev (dropWhile isWhiteSpace (rev (dropWhile isWhiteSpace s)))"

text \<open>\<open>split\<close> on a separator of one character; the empty string gives one empty piece.\<close>

fun splitOn :: "(char \<Rightarrow> bool) \<Rightarrow> string \<Rightarrow> string list" where
  "splitOn sep [] = [[]]"
| "splitOn sep (c # cs) =
     (if sep c then [] # splitOn sep cs
      else (case splitOn sep cs of [] \<Rightarrow> [[c]] | w # ws \<Rightarrow> (c # w) # ws))"

text \<open>\<open>split(/\r?\n/)\<close>: a line feed separates, together with a carriage return just
  before it.\<close>

fun splitLines :: "string \<Rightarrow> string list" where
  "splitLines [] = [[]]"
| "splitLines (c # cs) =
     (if of_char c = (10::nat) then [] # splitLines cs
      else if of_char c = (13::nat) \<and> (case cs of [] \<Rightarrow> False | d # ds \<Rightarrow> of_char d = (10::nat))
      then [] # splitLines (tl cs)
      else (case splitLines cs of [] \<Rightarrow> [[c]] | w # ws \<Rightarrow> (c # w) # ws))"

definition toLowerChar :: "char \<Rightarrow> char" where
  "toLowerChar c =
     (let n = (of_char c :: nat)
      in if (65 \<le> n \<and> n \<le> 90) \<or> (192 \<le> n \<and> n \<le> 222 \<and> n \<noteq> 215)
         then char_of (n + 32) else c)"

definition toLowerCase :: "string \<Rightarrow> string" where
  "toLowerCase s = map toLowerChar s"

fun indexOfFrom :: "nat \<Rightarrow> 'a \<Rightarrow> 'a list \<Rightarrow> int" where
  "indexOfFrom i x [] = - 1"
| "indexOfFrom i x (y # ys) = (if y = x then int i else indexOfFrom (Suc i) x ys)"

definition indexOf :: "'a list \<Rightarrow> 'a \<Rightarrow> int" where
  "indexOf xs x = indexOfFrom 0 x xs"

text \<open>\<open>xs[i]\<close>: \<open>undefined\<close> outside the array, also for the index \<open>-1\<close>.\<close>

definition element :: "'a list \<Rightarrow> int \<Rightarrow> 'a option" where
  "element xs i = (if 0 \<le> i \<and> i < int (length xs) then Some (xs ! nat i) else None)"

function decimal :: "nat \<Rightarrow> string" where
  "decimal n =
     (if n < 10 then [char_of (48 + n)]
      else decimal (n div 10) @ [char_of (48 + n mod 10)])"
  by pat_completeness auto
termination
  by (relation "measure (\<lambda>n. n)") auto

declare decimal.simps [simp del]

subsection \<open>importFromCsv\<close>

record ColumnIndexes =
  idIndex :: int
  nameIndex :: int
  addressIndex :: int
  osIndex :: int
  tagsIndex :: int

definition columnIndexes :: "string \<Rightarrow> ColumnIndexes" where
  "columnIndexes headerLine =
     (let headers = map (\<lambda>h. toLowerCase (trim h)) (splitOn (\<lambda>c. c = CHR '','') headerLine)
      in \<lparr>idIndex = indexOf headers ''id'',
          nameIndex = (if indexOf headers ''nom'' \<ge> 0 then indexOf headers ''nom''
                       else indexOf headers ''name''),
          addressIndex = (if indexOf headers ''ip'' \<ge> 0 then indexOf headers ''ip''
                          else indexOf headers ''address''),
          osIndex = indexOf headers ''os'',
          tagsIndex = (if indexOf headers ''tag'' \<ge> 0 then indexOf headers ''tag''
                       else indexOf headers ''tags'')\<rparr>)"

definition rawColumnsOf :: "string \<Rightarrow> string list" where
  "rawColumnsOf line = map trim (splitOn (\<lambda>c. c = CHR '','') line)"

definition rowId :: "ColumnIndexes \<Rightarrow> nat \<Rightarrow> string \<Rightarrow> string" where
  "rowId ix i line =
     (case element (rawColumnsOf line) (idIndex ix) of
        Some v \<Rightarrow> v | None \<Rightarrow> ''host-'' @ decimal i)"

definition rowAddress :: "ColumnIndexes \<Rightarrow> string \<Rightarrow> string" where
  "rowAddress ix line =
     (case element (rawColumnsOf line) (addressIndex ix) of Some v \<Rightarrow> v | None \<Rightarrow> [])"

text \<open>The host record built from a row that has an address.\<close>

definition rowHost :: "ColumnIndexes \<Rightarrow> HostDefaults \<Rightarrow> nat \<Rightarrow> string \<Rightarrow> HostRecord" where
  "rowHost ix defaults i line =
     (let rawColumns = rawColumnsOf line;
          ident = rowId ix i line;
          name' = (case element rawColumns (nameIndex ix) of Some v \<Rightarrow> v | None \<Rightarrow> ident);
          os' = (case element rawColumns (osIndex ix) of
                   Some v \<Rightarrow> v
                 | None \<Rightarrow> (case osD defaults of Some v \<Rightarrow> v | None \<Rightarrow> ''windows''));
          tagsRaw = (case element rawColumns (tagsIndex ix) of Some v \<Rightarrow> v | None \<Rightarrow> []);
          tags' = (if length tagsRaw > 0
                   then filter (\<lambda>t. t \<noteq> [])
                          (map trim (splitOn (\<lambda>c. c = CHR '';'' \<or> c = CHR ''|'') tagsRaw))
                   else [])
      in \<lparr>hid = ident, name = name', address = rowAddress ix line, os = os', tags = tags',
          enabled = (case enabledD defaults of Some v \<Rightarrow> v | None \<Rightarrow> True),
          groups = Some (case groupsD defaults of Some v \<Rightarrow> v | None \<Rightarrow> []),
          hostNotes = notesD defaults,
          lastSeenAt = lastSeenAtD defaults\<rparr>)"

text \<open>The loop over the data rows, \<open>i\<close> being the index of the first of them in \<open>lines\<close>.\<close>

fun importRows ::
  "ColumnIndexes \<Rightarrow> HostDefaults \<Rightarrow> nat \<Rightarrow> string list
     \<Rightarrow> (string \<times> HostRecord) list \<times> ImportResult
     \<Rightarrow> (string \<times> HostRecord) list \<times> ImportResult" where
  "importRows ix defaults i [] acc = acc"
| "importRows ix defaults i (line # rest) (hs, res) =
     (if rowAddress ix line = []
      then importRows ix defaults (Suc i) rest (hs, res\<lparr>skipped := skipped res + 1\<rparr>)
      else importRows ix defaults (Suc i) rest
             (AList.update (rowId ix i line) (rowHost ix defaults i line) hs,
              (if rowId ix i line \<in> set (map fst hs)
               then res\<lparr>updated := updated res + 1\<rparr>
               else res\<lparr>added := added res + 1\<rparr>)))"

definition csvLines :: "string \<Rightarrow> string list" where
  "csvLines csvContent = filter (\<lambda>line. length line > 0) (map trim (splitLines csvContent))"

definition importFromCsv :: "string \<Rightarrow> HostDefaults \<Rightarrow> HostRegistry \<Rightarrow> HostRegistry \<times> ImportResult" where
  "importFromCsv csvContent defaults r =
     (case csvLines csvContent of
        [] \<Rightarrow> (r, \<lparr>added = 0, updated = 0, skipped = 0\<rparr>)
      | header # rows \<Rightarrow>
          (case importRows (columnIndexes header) defaults 1 rows
                  (hosts r, \<lparr>added = 0, updated = 0, skipped = 0\<rparr>) of
             (hs, res) \<Rightarrow> (publish (r\<lparr>hosts := hs\<rparr>), res)))"

definition noDefaults :: HostDefaults where
  "noDefaults = \<lparr>osD = None, enabledD = None, groupsD = None, notesD = None, lastSeenAtD = None\<rparr>"

text \<open>
  What an import is expected to store, in the words of the specification: the data rows
  that have an address, in order, each with its identifier and the host record built
  from it. It is compared with \<open>importRows\<close> below.
\<close>

fun importedHosts ::
  "ColumnIndexes \<Rightarrow> HostDefaults \<Rightarrow> nat \<Rightarrow> string list \<Rightarrow> (string \<times> HostRecord) list" where
  "importedHosts ix defaults i [] = []"
| "importedHosts ix defaults i (line # rest) =
     (if rowAddress ix line = [] then importedHosts ix defaults (Suc i) rest
      else (rowId ix i line, rowHost ix defaults i line)
             # importedHosts ix defaults (Suc i) rest)"

section \<open>Invariants of the queue\<close>

text \<open>The job that \<open>startJob\<close> stores and hands to the executor.\<close>

definition runningJobOf :: "int \<Rightarrow> DeploymentJob \<Rightarrow> DeploymentJob" where
  "runningJobOf now job =
     job\<lparr>status := Running,
         metrics := (metrics job)\<lparr>attempt := attempt (metrics job) + 1, startedAt := Some now\<rparr>\<rparr>"

fun isThrottle :: "suspension \<Rightarrow> bool" where
  "isThrottle (AwaitThrottle job context) = True"
| "isThrottle x = False"

text \<open>
  The active set holds at most \<open>maxParallel\<close> entries (none when \<open>maxParallel\<close> is
  negative). \<open>processing\<close> is set between two steps exactly when \<open>processQueue\<close> is
  suspended on the throttle delay; there is at most one such suspension, and it holds a
  free slot.
\<close>

definition bounded :: "JobQueue \<Rightarrow> bool" where
  "bounded q \<longleftrightarrow>
     int (length (activeJobs q)) \<le> max 0 (maxParallel (options q))
     \<and> length (filter isThrottle (suspended q)) \<le> 1
     \<and> (processing q \<longleftrightarrow> filter isThrottle (suspended q) \<noteq> [])
     \<and> (filter isThrottle (suspended q) \<noteq> [] \<longrightarrow>
          int (length (activeJobs q)) < maxParallel (options q))"

text \<open>The suspensions that will call the executor for their job: \<open>executeJob\<close> waiting for
  the executor has called it, \<open>processQueue\<close> waiting for the throttle delay is about to
  start the job.\<close>

fun isStarter :: "suspension \<Rightarrow> bool" where
  "isStarter (AwaitExecutor job context) = True"
| "isStarter (AwaitThrottle job context) = True"
| "isStarter x = False"

text \<open>The number of such suspensions for a job, and the number of places where a job is
  waiting or being run: its occurrences in the FIFO and these suspensions.\<close>

definition starters :: "JobQueue \<Rightarrow> string \<Rightarrow> nat" where
  "starters q k = length (filter (\<lambda>x. isStarter x \<and> jid (jobOf x) = k) (suspended q))"

definition occurrences :: "JobQueue \<Rightarrow> string \<Rightarrow> nat" where
  "occurrences q k = count_list (waitingQueue q) k + starters q k"

text \<open>
  A job is in at most one such place, and then it is in the job table; a job of the
  table is stored under its own identifier and its attempt count is the number of calls
  of the executor made for it; no call was made for an identifier that is not in the
  table; a job in the FIFO is queued and has no start time; and the job a suspension
  captured has the attempt count of the table.
\<close>

definition wellFormed :: "JobQueue \<Rightarrow> bool" where
  "wellFormed q \<longleftrightarrow>
     (\<forall>k. occurrences q k \<le> 1)
     \<and> (\<forall>k. 0 < occurrences q k \<longrightarrow> map_of (jobs q) k \<noteq> None)
     \<and> (\<forall>k j. map_of (jobs q) k = Some j \<longrightarrow>
            jid j = k \<and> attempt (metrics j) = invocations q k)
     \<and> (\<forall>k. map_of (jobs q) k = None \<longrightarrow> invocations q k = 0)
     \<and> (\<forall>k \<in> set (waitingQueue q). \<exists>j. map_of (jobs q) k = Some j
            \<and> status j = Queued \<and> startedAt (metrics j) = None)
     \<and> (\<forall>x \<in> set (suspended q). isStarter x \<longrightarrow>
            attempt (metrics (jobOf x)) = invocations q (jid (jobOf x)))"

text \<open>The state \<open>enqueue\<close> hands to \<open>processQueue\<close>.\<close>

abbreviation enqueued :: "int \<Rightarrow> string \<Rightarrow> EnqueueJobInput \<Rightarrow> JobQueue \<Rightarrow> JobQueue" where
  "enqueued now uuid input q \<equiv>
     emit (JobEnqueued (createInitialJob now uuid input))
       (publishJobs
          (q\<lparr>jobs := AList.update uuid (createInitialJob now uuid input) (jobs q),
             waitingQueue := waitingQueue q @ [uuid],
             contextByJob := AList.update uuid (contextI input) (contextByJob q)\<rparr>))"

text \<open>A job that is in none of these places stays so and keeps its entry of the table.\<close>

definition undisturbed :: "string \<Rightarrow> JobQueue \<Rightarrow> JobQueue \<Rightarrow> bool" where
  "undisturbed k q q' \<longleftrightarrow> occurrences q' k = 0 \<and> map_of (jobs q') k = map_of (jobs q) k"

text \<open>A job that is in none of these places and is cancelled, with no start time, zero
  elapsed time and attempt count \<open>n\<close>.\<close>

definition cancelledFor :: "nat \<Rightarrow> string \<Rightarrow> JobQueue \<Rightarrow> bool" where
  "cancelledFor n k q \<longleftrightarrow>
     occurrences q k = 0
     \<and> (\<exists>j. map_of (jobs q) k = Some j \<and> status j = Cancelled
            \<and> startedAt (metrics j) = None \<and> elapsedMs (metrics j) = Some 0
            \<and> attempt (metrics j) = n)"

text \<open>The states a queue can reach from a given state.\<close>

inductive evolves :: "JobQueue \<Rightarrow> JobQueue \<Rightarrow> bool" for q where
  evolves_refl: "evolves q q"
| evolves_fire: "evolves q q' \<Longrightarrow> fire now a q' = Some q'' \<Longrightarrow> evolves q q''"

text \<open>The job that \<open>cancel\<close> stores.\<close>

definition cancelOf :: "int \<Rightarrow> DeploymentJob \<Rightarrow> DeploymentJob" where
  "cancelOf now job =
     job\<lparr>status := Cancelled,
         metrics := (metrics job)\<lparr>completedAt := Some now, elapsedMs := Some 0\<rparr>\<rparr>"

text \<open>Every call of the executor that is under way was made with a positive attempt
  number.\<close>

fun isExecutorCall :: "suspension \<Rightarrow> bool" where
  "isExecutorCall (AwaitExecutor job context) = True"
| "isExecutorCall x = False"

definition attempted :: "JobQueue \<Rightarrow> bool" where
  "attempted q \<longleftrightarrow>
     (\<forall>x \<in> set (suspended q). isExecutorCall x \<longrightarrow> 0 < attempt (metrics (jobOf x)))"

section \<open>Concrete inputs\<close>

definition exampleHost :: HostRecord where
  "exampleHost =
     \<lparr>hid = ''h1'', name = ''PC1'', address = ''10.0.0.1'', os = ''linux'', tags = [],
      enabled = True, groups = None, hostNotes = None, lastSeenAt = None\<rparr>"

definition exampleContext :: DeploymentContext where
  "exampleContext =
     \<lparr>profile = \<lparr>pid = ''default'', fqbn = ''arduino:avr:uno'', maxParallelP = 8,
                 timeoutMs = 180000, retryCountP = Some 1\<rparr>,
      host = exampleHost\<rparr>"

definition exampleInput :: EnqueueJobInput where
  "exampleInput =
     \<lparr>hostIdI = ''h1'', actionI = Upload, profileIdI = ''default'', sketchPathI = None,
      hexPathI = None, modeI = None, contextI = exampleContext\<rparr>"

definition queueOptions :: "int \<Rightarrow> int \<Rightarrow> PartialJobQueueOptions" where
  "queueOptions n r =
     \<lparr>maxParallelO = Some n, retryCountO = Some r, throttleMsO = None,
      metricsWindowSizeO = None\<rparr>"

definition okResult :: DeploymentResult where
  "okResult =
     \<lparr>rstatus = OK, port = None, relapsedMs = Some 40, logs = [], rerror = None,
      checksum = None\<rparr>"

definition boom :: thrown where
  "boom = ErrorObject ''Error'' ''boom''"

text \<open>A table of two rows, the second without an address; and two imports of the same
  identifier, the second one with French headers, a carriage return and another
  address.\<close>

definition twoRows :: string where
  "twoRows = ''id,name,address'' @ [char_of (10::nat)] @ ''h1,PC1,10.0.0.1''
               @ [char_of (10::nat)] @ ''h2,PC2,''"

definition firstImport :: string where
  "firstImport = ''id,name,address'' @ [char_of (10::nat)] @ ''h1,PC1,10.0.0.1''"

definition secondImport :: string where
  "secondImport = ''id,nom,ip'' @ [char_of (13::nat), char_of (10::nat)]
                    @ ''h1,PC1, 10.0.0.2 '' @ [char_of (10::nat)]"

text \<open>A queue of one slot in which job A has succeeded and job B was cancelled while it
  waited.\<close>

definition succeededAndCancelled :: JobQueue where
  "succeededAndCancelled =
     the (schedule [(0, Call Start), (1, Call (Enqueue ''A'' exampleInput)),
                    (2, Call (Enqueue ''B'' exampleInput)), (3, Call (Cancel ''B'')),
                    (50, Resume ''A'' (Settles (Inr okResult)))]
            (newJobQueue (queueOptions 1 1)))"

text \<open>
  Two slots and a retry budget of 2. Job A is started and its executor throws; after the
  retry delay \<open>handleJobFailure\<close> calls \<open>processQueue\<close>, which starts A again; then the
  \<open>finally\<close> block of the first attempt runs. Jobs B and C are enqueued afterwards.
\<close>

definition retryThenTwoMore :: "(int \<times> stimulus) list" where
  "retryThenTwoMore =
     [(0, Call Start), (1, Call (Enqueue ''A'' exampleInput)),
      (2, Resume ''A'' (Settles (Inl boom))), (102, Resume ''A'' RetryDelay),
      (102, Resume ''A'' Handled), (103, Call (Enqueue ''B'' exampleInput)),
      (104, Call (Enqueue ''C'' exampleInput))]"

definition threeRunning :: JobQueue where
  "threeRunning = the (schedule retryThenTwoMore (newJobQueue (queueOptions 2 2)))"

text \<open>A job whose executor throws at every call, run until nothing of it is suspended.\<close>

definition alwaysThrowing :: "int \<Rightarrow> int \<Rightarrow> JobQueue option" where
  "alwaysThrowing n r =
     settle 40 5 ''A'' (Inl boom)
       (enqueue 1 ''A'' exampleInput (start 0 (newJobQueue (queueOptions n r))))"

text \<open>The number of jobs ever enqueued: the \<open>jobEnqueued\<close> events emitted.\<close>

fun isEnqueued :: "QueueEvent \<Rightarrow> bool" where
  "isEnqueued (JobEnqueued job) = True"
| "isEnqueued e = False"

definition enqueuedTotal :: "JobQueue \<Rightarrow> nat" where
  "enqueuedTotal q = length (filter isEnqueued (emitted q))"

text \<open>Job A is started and its executor throws, with a retry budget of 2: the state during
  the retry delay of 100 ms.\<close>

definition retryWindowSchedule :: "(int \<times> stimulus) list" where
  "retryWindowSchedule =
     [(0, Call Start), (1, Call (Enqueue ''A'' exampleInput)),
      (2, Resume ''A'' (Settles (Inl boom)))]"

definition retryWindow :: JobQueue where
  "retryWindow = the (schedule retryWindowSchedule (newJobQueue (queueOptions 4 2)))"

text \<open>The strategy \<open>WinRMClient\<close>, which supports the hosts whose system is \<open>windows\<close>; the
  host of \<open>exampleContext\<close> runs \<open>linux\<close>.\<close>

definition winrmStrategy :: DeploymentStrategy where
  "winrmStrategy =
     \<lparr>sid = ''winrm'', label = ''WinRM (PowerShell)'', supports = (\<lambda>h. os h = ''windows'')\<rparr>"

definition noStrategySchedule :: "(int \<times> stimulus) list" where
  "noStrategySchedule =
     [(0, Call Start), (1, Call (Enqueue ''A'' exampleInput)),
      (2, Resume ''A'' (Settles (Inl (ErrorObject ''Error'' (noStrategyMessage exampleHost)))))]"

definition noStrategyRetried :: JobQueue where
  "noStrategyRetried = the (schedule noStrategySchedule (newJobQueue (queueOptions 4 2)))"

definition firstAttempt :: DeploymentJob where
  "firstAttempt = runningJobOf 1 (createInitialJob 1 ''A'' exampleInput)"

definition startedQueue :: "int \<Rightarrow> int \<Rightarrow> JobQueue" where
  "startedQueue n r = enqueue 1 ''A'' exampleInput (start 0 (newJobQueue (queueOptions n r)))"

text \<open>One slot: job A runs and job B waits in the FIFO. And, with a retry budget of 2:
  job A fails once and is queued again behind job B, which takes the slot; A is then
  cancelled while it waits.\<close>

definition waitingSchedule :: "(int \<times> stimulus) list" where
  "waitingSchedule =
     [(0, Call Start), (1, Call (Enqueue ''A'' exampleInput)),
      (2, Call (Enqueue ''B'' exampleInput))]"

definition oneWaiting :: JobQueue where
  "oneWaiting = the (schedule waitingSchedule (newJobQueue (queueOptions 1 1)))"

definition cancelAfterRetrySchedule :: "(int \<times> stimulus) list" where
  "cancelAfterRetrySchedule =
     [(0, Call Start), (1, Call (Enqueue ''A'' exampleInput)),
      (1, Call (Enqueue ''B'' exampleInput)), (2, Resume ''A'' (Settles (Inl boom))),
      (102, Resume ''A'' RetryDelay), (102, Resume ''A'' Handled),
      (103, Call (Cancel ''A''))]"

definition cancelledAfterRetry :: JobQueue where
  "cancelledAfterRetry = the (schedule cancelAfterRetrySchedule (newJobQueue (queueOptions 1 2)))"

section \<open>Properties\<close>

subsection \<open>Telemetry\<close>

lemma length_filter_succeeded_failed:
  "length (filter (\<lambda>job. status job \<in> set [Succeeded, Failed]) js)
     = length (filter (\<lambda>job. status job = Succeeded) js)
       + length (filter (\<lambda>job. status job = Failed) js)"
  by (induction js) auto

lemma settled_count:
  "length (filter (\<lambda>job. status job \<in> set [Succeeded, Failed]) (map snd (jobs q)))
     = countStatus Succeeded q + countStatus Failed q"
  unfolding countStatus_def by (rule length_filter_succeeded_failed)

lemma successRate_eq:
  "successRate (getTelemetry now q)
     = of_nat (countStatus Succeeded q)
         / of_nat (max 1 (countStatus Succeeded q + countStatus Failed q))"
  unfolding getTelemetry_def Let_def settled_count countStatus_def [symmetric]
  by (cases "countStatus Succeeded q + countStatus Failed q = 0") (simp_all add: max_def)

lemma failureRate_eq:
  "failureRate (getTelemetry now q)
     = of_nat (countStatus Failed q)
         / of_nat (max 1 (countStatus Succeeded q + countStatus Failed q))"
  unfolding getTelemetry_def Let_def settled_count countStatus_def [symmetric]
  by (cases "countStatus Succeeded q + countStatus Failed q = 0") (simp_all add: max_def)

lemma succeededAndCancelled_counts:
  "countStatus Succeeded succeededAndCancelled = 1"
  "countStatus Failed succeededAndCancelled = 0"
  "countStatus Cancelled succeededAndCancelled = 1"
  by code_simp+

text \<open>
  C7, counterexample. With one succeeded job and one cancelled job the success rate
  returned is 1, not the number of succeeded jobs divided by the number of terminal jobs
  (succeeded, failed or cancelled), which is one half.
\<close>

theorem telemetry_terminal_denominator_counterexample:
  "successRate (getTelemetry 60 succeededAndCancelled)
     \<noteq> of_nat (countStatus Succeeded succeededAndCancelled)
         / of_nat (countStatus Succeeded succeededAndCancelled
                   + countStatus Failed succeededAndCancelled
                   + countStatus Cancelled succeededAndCancelled)"
proof -
  have "successRate (getTelemetry 60 succeededAndCancelled) = 1"
    by code_simp
  then show ?thesis
    by (simp add: succeededAndCancelled_counts)
qed

text \<open>
  C7, amended. For every queue state, \<open>getTelemetry\<close> returns as success rate the number
  of succeeded jobs, and as failure rate the number of failed jobs, divided by the number
  of jobs that are succeeded or failed (cancelled jobs are not counted), this denominator
  being replaced by 1 when it is 0.
\<close>

theorem telemetry_rates_over_succeeded_and_failed:
  "successRate (getTelemetry now q)
     = of_nat (countStatus Succeeded q)
         / of_nat (max 1 (countStatus Succeeded q + countStatus Failed q))
   \<and> failureRate (getTelemetry now q)
     = of_nat (countStatus Failed q)
         / of_nat (max 1 (countStatus Succeeded q + countStatus Failed q))
   \<and> 0 < max 1 (countStatus Succeeded q + countStatus Failed q)"
  using successRate_eq failureRate_eq by simp

theorem telemetry_rates_over_succeeded_and_failed_witness:
  "successRate (getTelemetry 60 succeededAndCancelled) = 1
   \<and> failureRate (getTelemetry 60 succeededAndCancelled) = 0"
  using telemetry_rates_over_succeeded_and_failed [of 60 succeededAndCancelled]
  by (simp add: succeededAndCancelled_counts)

text \<open>
  C10. For every queue state, the success rate and the failure rate of \<open>getTelemetry\<close>
  add up to 1 when at least one job is succeeded or failed, and both are 0 when no job
  is.
\<close>

theorem telemetry_rates_sum:
  "(0 < countStatus Succeeded q + countStatus Failed q \<longrightarrow>
      successRate (getTelemetry now q) + failureRate (getTelemetry now q) = 1)
   \<and> (countStatus Succeeded q + countStatus Failed q = 0 \<longrightarrow>
      successRate (getTelemetry now q) = 0 \<and> failureRate (getTelemetry now q) = 0)"
proof (intro conjI impI)
  assume pos: "0 < countStatus Succeeded q + countStatus Failed q"
  then have m: "max 1 (countStatus Succeeded q + countStatus Failed q)
                  = countStatus Succeeded q + countStatus Failed q"
    by (auto simp: max_def)
  have "successRate (getTelemetry now q) + failureRate (getTelemetry now q)
          = of_nat (countStatus Succeeded q)
              / (of_nat (countStatus Succeeded q + countStatus Failed q) :: rat)
            + of_nat (countStatus Failed q)
              / of_nat (countStatus Succeeded q + countStatus Failed q)"
    unfolding successRate_eq failureRate_eq m ..
  also have "\<dots> = (of_nat (countStatus Succeeded q) + of_nat (countStatus Failed q))
                    / (of_nat (countStatus Succeeded q + countStatus Failed q) :: rat)"
    by (simp only: add_divide_distrib)
  also have "\<dots> = of_nat (countStatus Succeeded q + countStatus Failed q)
                    / (of_nat (countStatus Succeeded q + countStatus Failed q) :: rat)"
    by (simp only: of_nat_add)
  also have "\<dots> = 1"
  proof -
    have "(of_nat (countStatus Succeeded q + countStatus Failed q) :: rat) \<noteq> 0"
      using pos by (simp del: of_nat_add)
    then show ?thesis by (rule divide_self)
  qed
  finally show "successRate (getTelemetry now q) + failureRate (getTelemetry now q) = 1" .
next
  assume "countStatus Succeeded q + countStatus Failed q = 0"
  then show "successRate (getTelemetry now q) = 0"
    unfolding successRate_eq by simp
next
  assume "countStatus Succeeded q + countStatus Failed q = 0"
  then show "failureRate (getTelemetry now q) = 0"
    unfolding failureRate_eq by simp
qed

theorem telemetry_rates_sum_witness:
  "0 < countStatus Succeeded succeededAndCancelled + countStatus Failed succeededAndCancelled
   \<and> successRate (getTelemetry 60 succeededAndCancelled)
       + failureRate (getTelemetry 60 succeededAndCancelled) = 1
   \<and> countStatus Succeeded (newJobQueue (queueOptions 1 1))
       + countStatus Failed (newJobQueue (queueOptions 1 1)) = 0
   \<and> successRate (getTelemetry 60 (newJobQueue (queueOptions 1 1))) = 0
   \<and> failureRate (getTelemetry 60 (newJobQueue (queueOptions 1 1))) = 0"
proof -
  have a: "0 < countStatus Succeeded succeededAndCancelled
                 + countStatus Failed succeededAndCancelled"
    by (simp add: succeededAndCancelled_counts)
  have b: "countStatus Succeeded (newJobQueue (queueOptions 1 1))
             + countStatus Failed (newJobQueue (queueOptions 1 1)) = 0"
    by (simp add: countStatus_def newJobQueue_def)
  show ?thesis
    using a b telemetry_rates_sum [of succeededAndCancelled 60]
      telemetry_rates_sum [of "newJobQueue (queueOptions 1 1)" 60]
    by simp
qed

subsection \<open>Cancellation of a job that is neither active nor waiting\<close>

text \<open>
  C9. Calling \<open>cancel(jobId)\<close> on an existing job that is neither in the active set nor
  in the waiting FIFO, whatever its status, in particular succeeded or failed, stores the
  job with status cancelled, \<open>elapsedMs\<close> 0 and a new \<open>completedAt\<close>, and emits
  \<open>jobCompleted\<close> for it: terminal states are not guarded against cancellation.
\<close>

theorem cancel_overwrites_settled_job:
  assumes "map_of (jobs q) jobId = Some job"
    and "jobId \<notin> set (map fst (activeJobs q))"
    and "jobId \<notin> set (waitingQueue q)"
  shows "map_of (jobs (cancel now jobId q)) jobId
           = Some (job\<lparr>status := Cancelled,
                        metrics := (metrics job)\<lparr>completedAt := Some now, elapsedMs := Some 0\<rparr>\<rparr>)
         \<and> last (emitted (cancel now jobId q))
           = JobCompleted (job\<lparr>status := Cancelled,
                        metrics := (metrics job)\<lparr>completedAt := Some now, elapsedMs := Some 0\<rparr>\<rparr>)
         \<and> waitingQueue (cancel now jobId q) = waitingQueue q
         \<and> activeJobs (cancel now jobId q) = activeJobs q"
  using assms
  by (simp add: cancel_def Let_def emit_def publishJobs_def update_conv' remove1_idem)

theorem cancel_overwrites_settled_job_witness:
  "status (the (map_of (jobs succeededAndCancelled) ''A'')) = Succeeded
   \<and> completedAt (metrics (the (map_of (jobs succeededAndCancelled) ''A''))) = Some 50
   \<and> elapsedMs (metrics (the (map_of (jobs succeededAndCancelled) ''A''))) = Some 40
   \<and> ''A'' \<notin> set (map fst (activeJobs succeededAndCancelled))
   \<and> ''A'' \<notin> set (waitingQueue succeededAndCancelled)
   \<and> status (the (map_of (jobs (cancel 70 ''A'' succeededAndCancelled)) ''A'')) = Cancelled
   \<and> completedAt (metrics (the (map_of (jobs (cancel 70 ''A'' succeededAndCancelled)) ''A'')))
       = Some 70
   \<and> elapsedMs (metrics (the (map_of (jobs (cancel 70 ''A'' succeededAndCancelled)) ''A'')))
       = Some 0"
proof -
  have j: "map_of (jobs succeededAndCancelled) ''A''
             = Some (the (map_of (jobs succeededAndCancelled) ''A''))"
    by code_simp
  have a: "''A'' \<notin> set (map fst (activeJobs succeededAndCancelled))"
    by code_simp
  have w: "''A'' \<notin> set (waitingQueue succeededAndCancelled)"
    by code_simp
  have s: "status (the (map_of (jobs succeededAndCancelled) ''A'')) = Succeeded"
    by code_simp
  have c: "completedAt (metrics (the (map_of (jobs succeededAndCancelled) ''A''))) = Some 50"
    by code_simp
  have e: "elapsedMs (metrics (the (map_of (jobs succeededAndCancelled) ''A''))) = Some 40"
    by code_simp
  show ?thesis
    using cancel_overwrites_settled_job [OF j a w, of 70] a w s c e by simp
qed

subsection \<open>Import of hosts from CSV\<close>

lemma card_new_ids:
  "finite S \<Longrightarrow> x \<notin> K \<Longrightarrow> card (insert x S - K) = Suc (card (S - insert x K))"
proof -
  assume f: "finite S" and x: "x \<notin> K"
  have "insert x S - K = insert x (S - insert x K)" using x by auto
  moreover have "x \<notin> S - insert x K" by simp
  ultimately show ?thesis using f by simp
qed

lemma importRows_skipped:
  "skipped (snd (importRows ix d i rows (hs, res)))
     = skipped res + length (filter (\<lambda>l. rowAddress ix l = []) rows)"
  by (induction rows arbitrary: i hs res) auto

lemma importRows_added_updated:
  "added (snd (importRows ix d i rows (hs, res))) + updated (snd (importRows ix d i rows (hs, res)))
     = added res + updated res + length (importedHosts ix d i rows)"
  by (induction rows arbitrary: i hs res) auto

lemma importRows_added:
  "added (snd (importRows ix d i rows (hs, res)))
     = added res + card (fst ` set (importedHosts ix d i rows) - fst ` set hs)"
proof (induction rows arbitrary: i hs res)
  case Nil
  then show ?case by simp
next
  case (Cons line rest)
  show ?case
  proof (cases "rowAddress ix line = []")
    case True
    then show ?thesis using Cons.IH by simp
  next
    case False
    show ?thesis
    proof (cases "rowId ix i line \<in> fst ` set hs")
      case True
      then show ?thesis using False Cons.IH
        by (simp add: dom_update insert_absorb)
    next
      case notin: False
      then show ?thesis using False Cons.IH
        by (simp add: dom_update card_new_ids)
    qed
  qed
qed

lemma importRows_map_of:
  "map_of (fst (importRows ix d i rows (hs, res)))
     = map_of hs ++ map_of (rev (importedHosts ix d i rows))"
proof (induction rows arbitrary: i hs res)
  case Nil
  then show ?case by simp
next
  case (Cons line rest)
  show ?case
  proof (cases "rowAddress ix line = []")
    case True
    then show ?thesis using Cons.IH by simp
  next
    case False
    have "map_of (fst (importRows ix d i (line # rest) (hs, res)))
            = map_of (AList.update (rowId ix i line) (rowHost ix d i line) hs)
                ++ map_of (rev (importedHosts ix d (Suc i) rest))"
      using False Cons.IH by simp
    also have "\<dots> = (map_of hs ++ map_of [(rowId ix i line, rowHost ix d i line)])
                ++ map_of (rev (importedHosts ix d (Suc i) rest))"
      by (simp add: update_conv')
    also have "\<dots> = map_of hs ++ map_of (rev (importedHosts ix d i (line # rest)))"
      using False by (simp only: importedHosts.simps if_False rev.simps map_of_append map_add_assoc)
    finally show ?thesis .
  qed
qed

lemma prefix_update_keys: "prefix (map fst al) (map fst (AList.update k v al))"
  by (simp add: update_keys)

lemma importRows_prefix:
  "prefix (map fst hs) (map fst (fst (importRows ix d i rows (hs, res))))"
proof (induction rows arbitrary: i hs res)
  case Nil
  then show ?case by simp
next
  case (Cons line rest)
  show ?case
  proof (cases "rowAddress ix line = []")
    case True
    then show ?thesis using Cons.IH by simp
  next
    case False
    then have eq: "fst (importRows ix d i (line # rest) (hs, res))
        = fst (importRows ix d (Suc i) rest
                (AList.update (rowId ix i line) (rowHost ix d i line) hs,
                 (if rowId ix i line \<in> set (map fst hs)
                  then res\<lparr>updated := updated res + 1\<rparr>
                  else res\<lparr>added := added res + 1\<rparr>)))"
      by simp
    show ?thesis
      unfolding eq by (rule prefix_order.trans [OF prefix_update_keys Cons.IH])
  qed
qed


lemma length_importedHosts:
  "length (importedHosts ix d i rows) = length (filter (\<lambda>l. rowAddress ix l \<noteq> []) rows)"
  by (induction rows arbitrary: i) auto

lemma importFromCsv_rows:
  assumes "csvLines csvContent = header # rows"
  shows "importFromCsv csvContent d r
           = (publish (r\<lparr>hosts := fst (importRows (columnIndexes header) d 1 rows
                                         (hosts r, \<lparr>added = 0, updated = 0, skipped = 0\<rparr>))\<rparr>),
              snd (importRows (columnIndexes header) d 1 rows
                     (hosts r, \<lparr>added = 0, updated = 0, skipped = 0\<rparr>)))"
  using assms by (simp add: importFromCsv_def split: prod.splits)

lemma importFromCsv_general:
  assumes "csvLines csvContent = header # rows"
  shows "skipped (snd (importFromCsv csvContent d r))
           = length (filter (\<lambda>line. rowAddress (columnIndexes header) line = []) rows)
       \<and> added (snd (importFromCsv csvContent d r))
           = card (fst ` set (importedHosts (columnIndexes header) d 1 rows) - fst ` set (hosts r))
       \<and> added (snd (importFromCsv csvContent d r)) + updated (snd (importFromCsv csvContent d r))
           = length (filter (\<lambda>line. rowAddress (columnIndexes header) line \<noteq> []) rows)
       \<and> map_of (hosts (fst (importFromCsv csvContent d r)))
           = map_of (hosts r) ++ map_of (rev (importedHosts (columnIndexes header) d 1 rows))
       \<and> prefix (map fst (hosts r)) (map fst (hosts (fst (importFromCsv csvContent d r))))"
proof (intro conjI)
  show "skipped (snd (importFromCsv csvContent d r))
          = length (filter (\<lambda>line. rowAddress (columnIndexes header) line = []) rows)"
    unfolding importFromCsv_rows [OF assms] by (simp add: importRows_skipped)
  show "added (snd (importFromCsv csvContent d r))
          = card (fst ` set (importedHosts (columnIndexes header) d 1 rows) - fst ` set (hosts r))"
    unfolding importFromCsv_rows [OF assms] by (simp add: importRows_added)
  show "added (snd (importFromCsv csvContent d r)) + updated (snd (importFromCsv csvContent d r))
          = length (filter (\<lambda>line. rowAddress (columnIndexes header) line \<noteq> []) rows)"
    unfolding importFromCsv_rows [OF assms]
    by (simp add: importRows_added_updated length_importedHosts)
  show "map_of (hosts (fst (importFromCsv csvContent d r)))
          = map_of (hosts r) ++ map_of (rev (importedHosts (columnIndexes header) d 1 rows))"
    unfolding importFromCsv_rows [OF assms] by (simp add: importRows_map_of publish_def)
  show "prefix (map fst (hosts r)) (map fst (hosts (fst (importFromCsv csvContent d r))))"
    unfolding importFromCsv_rows [OF assms] by (simp add: importRows_prefix publish_def)
qed

text \<open>
  C8. \<open>importFromCsv\<close> skips and counts as skipped every data row whose address is
  missing or empty; the other rows are stored under their identifier, the latest row of
  an identifier winning and the identifiers already in the registry keeping their place;
  \<open>added\<close> is the number of distinct identifiers that were not in the registry, and
  \<open>updated\<close> counts every other stored row, whose identifier existed when the row was
  read. A table of two rows, one of them without an address, gives
  \<open>{added: 1, updated: 0, skipped: 1}\<close>; importing an identifier again with another
  address counts one update and leaves the latest address in the registry.
\<close>

theorem importFromCsv_skips_updates_adds:
  "(csvLines csvContent = header # rows \<longrightarrow>
      skipped (snd (importFromCsv csvContent d r))
        = length (filter (\<lambda>line. rowAddress (columnIndexes header) line = []) rows)
    \<and> added (snd (importFromCsv csvContent d r))
        = card (fst ` set (importedHosts (columnIndexes header) d 1 rows) - fst ` set (hosts r))
    \<and> added (snd (importFromCsv csvContent d r)) + updated (snd (importFromCsv csvContent d r))
        = length (filter (\<lambda>line. rowAddress (columnIndexes header) line \<noteq> []) rows)
    \<and> map_of (hosts (fst (importFromCsv csvContent d r)))
        = map_of (hosts r) ++ map_of (rev (importedHosts (columnIndexes header) d 1 rows))
    \<and> prefix (map fst (hosts r)) (map fst (hosts (fst (importFromCsv csvContent d r)))))
   \<and> snd (importFromCsv twoRows noDefaults (newHostRegistry [] []))
       = \<lparr>added = 1, updated = 0, skipped = 1\<rparr>
   \<and> snd (importFromCsv firstImport noDefaults (newHostRegistry [] []))
       = \<lparr>added = 1, updated = 0, skipped = 0\<rparr>
   \<and> snd (importFromCsv secondImport noDefaults
            (fst (importFromCsv firstImport noDefaults (newHostRegistry [] []))))
       = \<lparr>added = 0, updated = 1, skipped = 0\<rparr>
   \<and> map_option address
        (getHostById (fst (importFromCsv secondImport noDefaults
            (fst (importFromCsv firstImport noDefaults (newHostRegistry [] []))))) ''h1'')
       = Some ''10.0.0.2''"
proof (intro conjI impI)
  show "snd (importFromCsv twoRows noDefaults (newHostRegistry [] []))
          = \<lparr>added = 1, updated = 0, skipped = 1\<rparr>"
    by code_simp
  show "snd (importFromCsv firstImport noDefaults (newHostRegistry [] []))
          = \<lparr>added = 1, updated = 0, skipped = 0\<rparr>"
    by code_simp
  show "snd (importFromCsv secondImport noDefaults
               (fst (importFromCsv firstImport noDefaults (newHostRegistry [] []))))
          = \<lparr>added = 0, updated = 1, skipped = 0\<rparr>"
    by code_simp
  show "map_option address
          (getHostById (fst (importFromCsv secondImport noDefaults
              (fst (importFromCsv firstImport noDefaults (newHostRegistry [] []))))) ''h1'')
          = Some ''10.0.0.2''"
    by code_simp
qed (use importFromCsv_general in blast)+

theorem importFromCsv_skips_updates_adds_witness:
  "csvLines twoRows = ''id,name,address'' # [''h1,PC1,10.0.0.1'', ''h2,PC2,'']
   \<and> skipped (snd (importFromCsv twoRows noDefaults (newHostRegistry [] [])))
       = length (filter (\<lambda>line. rowAddress (columnIndexes ''id,name,address'') line = [])
                   [''h1,PC1,10.0.0.1'', ''h2,PC2,''])
   \<and> length (filter (\<lambda>line. rowAddress (columnIndexes ''id,name,address'') line = [])
                   [''h1,PC1,10.0.0.1'', ''h2,PC2,'']) = 1"
proof -
  have l: "csvLines twoRows = ''id,name,address'' # [''h1,PC1,10.0.0.1'', ''h2,PC2,'']"
    by code_simp
  have n: "length (filter (\<lambda>line. rowAddress (columnIndexes ''id,name,address'') line = [])
                   [''h1,PC1,10.0.0.1'', ''h2,PC2,'']) = 1"
    by code_simp
  show ?thesis
    using l n
      importFromCsv_skips_updates_adds
        [of twoRows "''id,name,address''" "[''h1,PC1,10.0.0.1'', ''h2,PC2,'']"
            noDefaults "newHostRegistry [] []"]
    by simp
qed

subsection \<open>Effects of the primitive operations\<close>

lemma emit_fields [simp]:
  "jobs (emit e q) = jobs q" "waitingQueue (emit e q) = waitingQueue q"
  "suspended (emit e q) = suspended q" "activeJobs (emit e q) = activeJobs q"
  "options (emit e q) = options q" "running (emit e q) = running q"
  "processing (emit e q) = processing q" "lastStartTimestamp (emit e q) = lastStartTimestamp q"
  "contextByJob (emit e q) = contextByJob q" "emitted (emit e q) = emitted q @ [e]"
  "completedDurations (emit e q) = completedDurations q"
  "completionHistory (emit e q) = completionHistory q"
  by (simp_all add: emit_def)

lemma publishJobs_fields [simp]:
  "jobs (publishJobs q) = jobs q" "waitingQueue (publishJobs q) = waitingQueue q"
  "suspended (publishJobs q) = suspended q" "activeJobs (publishJobs q) = activeJobs q"
  "options (publishJobs q) = options q" "running (publishJobs q) = running q"
  "processing (publishJobs q) = processing q"
  "lastStartTimestamp (publishJobs q) = lastStartTimestamp q"
  "contextByJob (publishJobs q) = contextByJob q"
  "completedDurations (publishJobs q) = completedDurations q"
  "completionHistory (publishJobs q) = completionHistory q"
  by (simp_all add: publishJobs_def)

lemma invocations_emit [simp]:
  "invocations (emit e q) k = invocations q k + (if isCallFor k e then 1 else 0)"
  by (simp add: invocations_def emit_def)

lemma invocations_publishJobs [simp]: "invocations (publishJobs q) k = invocations q k"
  by (simp add: publishJobs_def)

lemma invocations_update [simp]:
  "invocations (q\<lparr>jobs := a\<rparr>) k = invocations q k"
  "invocations (q\<lparr>waitingQueue := b\<rparr>) k = invocations q k"
  "invocations (q\<lparr>activeJobs := c\<rparr>) k = invocations q k"
  "invocations (q\<lparr>suspended := d\<rparr>) k = invocations q k"
  "invocations (q\<lparr>processing := e\<rparr>) k = invocations q k"
  "invocations (q\<lparr>running := f\<rparr>) k = invocations q k"
  "invocations (q\<lparr>lastStartTimestamp := g\<rparr>) k = invocations q k"
  "invocations (q\<lparr>contextByJob := h\<rparr>) k = invocations q k"
  "invocations (q\<lparr>completedDurations := i\<rparr>) k = invocations q k"
  "invocations (q\<lparr>completionHistory := j\<rparr>) k = invocations q k"
  by (simp_all add: invocations_def)

lemma startJob_fields [simp]:
  "jobs (startJob now job c q) = AList.update (jid job) (runningJobOf now job) (jobs q)"
  "waitingQueue (startJob now job c q) = waitingQueue q"
  "suspended (startJob now job c q) = suspended q @ [AwaitExecutor (runningJobOf now job) c]"
  "activeJobs (startJob now job c q) = AList.update (jid job) (runningJobOf now job, c) (activeJobs q)"
  "options (startJob now job c q) = options q"
  "running (startJob now job c q) = running q"
  "processing (startJob now job c q) = processing q"
  "lastStartTimestamp (startJob now job c q) = lastStartTimestamp q"
  "contextByJob (startJob now job c q) = contextByJob q"
  "invocations (startJob now job c q) k = invocations q k + (if k = jid job then 1 else 0)"
  by (auto simp: startJob_def Let_def runningJobOf_def)


lemma length_update_le: "length (AList.update k v al) \<le> Suc (length al)"
  by (induction al) auto

lemma length_delete_le: "length (AList.delete k al) \<le> length al"
  by (simp add: AList.delete_eq)

lemma bounded_frame [simp]:
  "bounded (q\<lparr>jobs := a\<rparr>) = bounded q"
  "bounded (q\<lparr>waitingQueue := b\<rparr>) = bounded q"
  "bounded (q\<lparr>contextByJob := c\<rparr>) = bounded q"
  "bounded (q\<lparr>completedDurations := d\<rparr>) = bounded q"
  "bounded (q\<lparr>completionHistory := e\<rparr>) = bounded q"
  "bounded (q\<lparr>running := f\<rparr>) = bounded q"
  "bounded (q\<lparr>lastStartTimestamp := g\<rparr>) = bounded q"
  "bounded (q\<lparr>emitted := h\<rparr>) = bounded q"
  "bounded (emit ev q) = bounded q"
  "bounded (publishJobs q) = bounded q"
  by (simp_all add: bounded_def)

lemma processLoop_exit:
  "\<not> (running q \<and> int (length (activeJobs q)) < maxParallel (options q) \<and> waitingQueue q \<noteq> [])
   \<Longrightarrow> processLoop now q = q\<lparr>processing := False\<rparr>"
  by (auto simp add: processLoop.simps [of now q])

lemma processLoop_break:
  "running q \<Longrightarrow> int (length (activeJobs q)) < maxParallel (options q) \<Longrightarrow>
   waitingQueue q \<noteq> [] \<Longrightarrow> hd (waitingQueue q) = [] \<Longrightarrow>
   processLoop now q = q\<lparr>waitingQueue := tl (waitingQueue q), processing := False\<rparr>"
  by (auto simp add: processLoop.simps [of now q])

lemma processLoop_continue:
  "running q \<Longrightarrow> int (length (activeJobs q)) < maxParallel (options q) \<Longrightarrow>
   waitingQueue q \<noteq> [] \<Longrightarrow> hd (waitingQueue q) \<noteq> [] \<Longrightarrow>
   map_of (jobs q) (hd (waitingQueue q)) = None
     \<or> map_of (contextByJob q) (hd (waitingQueue q)) = None \<Longrightarrow>
   processLoop now q = processLoop now (q\<lparr>waitingQueue := tl (waitingQueue q)\<rparr>)"
  by (auto simp add: processLoop.simps [of now q] split: option.splits)

lemma processLoop_throttle:
  "running q \<Longrightarrow> int (length (activeJobs q)) < maxParallel (options q) \<Longrightarrow>
   waitingQueue q \<noteq> [] \<Longrightarrow> hd (waitingQueue q) \<noteq> [] \<Longrightarrow>
   map_of (jobs q) (hd (waitingQueue q)) = Some job \<Longrightarrow>
   map_of (contextByJob q) (hd (waitingQueue q)) = Some context \<Longrightarrow>
   throttleMs (options q) > 0 \<and> now - lastStartTimestamp q < throttleMs (options q) \<Longrightarrow>
   processLoop now q = q\<lparr>waitingQueue := tl (waitingQueue q),
                           suspended := suspended q @ [AwaitThrottle job context]\<rparr>"
  by (auto simp add: processLoop.simps [of now q])

lemma processLoop_start:
  "running q \<Longrightarrow> int (length (activeJobs q)) < maxParallel (options q) \<Longrightarrow>
   waitingQueue q \<noteq> [] \<Longrightarrow> hd (waitingQueue q) \<noteq> [] \<Longrightarrow>
   map_of (jobs q) (hd (waitingQueue q)) = Some job \<Longrightarrow>
   map_of (contextByJob q) (hd (waitingQueue q)) = Some context \<Longrightarrow>
   \<not> (throttleMs (options q) > 0 \<and> now - lastStartTimestamp q < throttleMs (options q)) \<Longrightarrow>
   processLoop now q = processLoop now (startJob now job context
                          (q\<lparr>waitingQueue := tl (waitingQueue q), lastStartTimestamp := now\<rparr>))"
  by (auto simp add: processLoop.simps [of now q])

text \<open>An induction rule for the loop, one case for each way through its body.\<close>

lemma processLoop_cases [case_names exit break continue throttle start]:
  assumes "\<And>now q. \<not> (running q \<and> int (length (activeJobs q)) < maxParallel (options q)
                        \<and> waitingQueue q \<noteq> []) \<Longrightarrow> P now q"
    and "\<And>now q. running q \<Longrightarrow> int (length (activeJobs q)) < maxParallel (options q) \<Longrightarrow>
           waitingQueue q \<noteq> [] \<Longrightarrow> hd (waitingQueue q) = [] \<Longrightarrow> P now q"
    and "\<And>now q. running q \<Longrightarrow> int (length (activeJobs q)) < maxParallel (options q) \<Longrightarrow>
           waitingQueue q \<noteq> [] \<Longrightarrow> hd (waitingQueue q) \<noteq> [] \<Longrightarrow>
           map_of (jobs q) (hd (waitingQueue q)) = None
             \<or> map_of (contextByJob q) (hd (waitingQueue q)) = None \<Longrightarrow>
           P now (q\<lparr>waitingQueue := tl (waitingQueue q)\<rparr>) \<Longrightarrow> P now q"
    and "\<And>now q job context. running q \<Longrightarrow>
           int (length (activeJobs q)) < maxParallel (options q) \<Longrightarrow>
           waitingQueue q \<noteq> [] \<Longrightarrow> hd (waitingQueue q) \<noteq> [] \<Longrightarrow>
           map_of (jobs q) (hd (waitingQueue q)) = Some job \<Longrightarrow>
           map_of (contextByJob q) (hd (waitingQueue q)) = Some context \<Longrightarrow>
           throttleMs (options q) > 0 \<and> now - lastStartTimestamp q < throttleMs (options q) \<Longrightarrow>
           P now q"
    and "\<And>now q job context. running q \<Longrightarrow>
           int (length (activeJobs q)) < maxParallel (options q) \<Longrightarrow>
           waitingQueue q \<noteq> [] \<Longrightarrow> hd (waitingQueue q) \<noteq> [] \<Longrightarrow>
           map_of (jobs q) (hd (waitingQueue q)) = Some job \<Longrightarrow>
           map_of (contextByJob q) (hd (waitingQueue q)) = Some context \<Longrightarrow>
           \<not> (throttleMs (options q) > 0 \<and> now - lastStartTimestamp q < throttleMs (options q)) \<Longrightarrow>
           P now (startJob now job context
                    (q\<lparr>waitingQueue := tl (waitingQueue q), lastStartTimestamp := now\<rparr>)) \<Longrightarrow>
           P now q"
  shows "P now q"
proof (induction now q rule: processLoop.induct)
  case (1 now q)
  show ?case
  proof (cases "running q \<and> int (length (activeJobs q)) < maxParallel (options q) \<and> waitingQueue q \<noteq> []")
    case False
    then show ?thesis by (rule assms(1))
  next
    case go: True
    show ?thesis
    proof (cases "hd (waitingQueue q) = []")
      case True
      then show ?thesis using go assms(2) by blast
    next
      case nonempty: False
      show ?thesis
      proof (cases "map_of (jobs q) (hd (waitingQueue q))")
        case None
        then show ?thesis using go nonempty "1.IH"(1) assms(3) by blast
      next
        case (Some job)
        note job = this
        show ?thesis
        proof (cases "map_of (contextByJob q) (hd (waitingQueue q))")
          case None
          then show ?thesis using go nonempty job "1.IH"(2) assms(3) by blast
        next
          case (Some ctx)
          show ?thesis
          proof (cases "throttleMs (options q) > 0 \<and> now - lastStartTimestamp q < throttleMs (options q)")
            case True
            then show ?thesis using go nonempty job Some assms(4) by blast
          next
            case False
            then show ?thesis using go nonempty job Some "1.IH"(3) assms(5) by blast
          qed
        qed
      qed
    qed
  qed
qed

lemma processLoop_bounded:
  "processing q \<Longrightarrow> filter isThrottle (suspended q) = [] \<Longrightarrow>
   int (length (activeJobs q)) \<le> max 0 (maxParallel (options q)) \<Longrightarrow>
   bounded (processLoop now q)"
proof (induction now q rule: processLoop_cases)
  case (exit now q)
  then show ?case by (simp add: processLoop_exit bounded_def)
next
  case (break now q)
  then show ?case by (simp add: processLoop_break bounded_def)
next
  case (continue now q)
  then show ?case by (simp add: processLoop_continue)
next
  case (throttle now q job ctx)
  then show ?case by (simp add: processLoop_throttle bounded_def)
next
  case (start now q job ctx)
  have "int (length (AList.update (jid job) (runningJobOf now job, ctx) (activeJobs q)))
          \<le> max 0 (maxParallel (options q))"
    using start(2) length_update_le [of "jid job" "(runningJobOf now job, ctx)" "activeJobs q"]
    by linarith
  then show ?case using start by (simp add: processLoop_start)
qed


lemma processQueue_bounded: "bounded q \<Longrightarrow> bounded (processQueue now q)"
  unfolding processQueue_def
  by (auto intro!: processLoop_bounded) (auto simp: bounded_def)

lemma bounded_fewer_active:
  "bounded q \<Longrightarrow> length a \<le> length (activeJobs q) \<Longrightarrow> bounded (q\<lparr>activeJobs := a\<rparr>)"
  by (auto simp: bounded_def)

lemma filter_isThrottle_remove1:
  "\<not> isThrottle x \<Longrightarrow> filter isThrottle (remove1 x xs) = filter isThrottle xs"
  by (simp add: filter_remove1 remove1_idem)

lemma bounded_resume:
  "bounded q \<Longrightarrow> \<not> isThrottle x \<Longrightarrow> bounded (resume x q)"
  by (simp add: bounded_def resume_def filter_isThrottle_remove1)

lemma bounded_suspend:
  "bounded q \<Longrightarrow> \<not> isThrottle x \<Longrightarrow> bounded (q\<lparr>suspended := suspended q @ [x]\<rparr>)"
  by (simp add: bounded_def)

lemma bounded_suspend':
  "bounded q \<Longrightarrow> \<not> isThrottle x \<Longrightarrow> bounded (q\<lparr>suspended := suspended q @ [x]\<rparr>)"
  by (simp add: bounded_def)

lemma single_throttle:
  assumes "length (filter isThrottle xs) \<le> 1" "x \<in> set xs" "isThrottle x"
  shows "filter isThrottle (remove1 x xs) = []"
proof -
  have "x \<in> set (filter isThrottle xs)" using assms by simp
  then obtain ys where "filter isThrottle xs = x # ys"
    using assms(1) by (cases "filter isThrottle xs") auto
  with assms(1) have "filter isThrottle xs = [x]" by simp
  then show ?thesis by (simp add: filter_remove1)
qed

lemma cancel_bounded: "bounded q \<Longrightarrow> bounded (cancel now jobId q)"
  by (simp add: cancel_def Let_def split: option.splits)

lemma cancelAll_bounded: "bounded q \<Longrightarrow> bounded (cancelAll now q)"
proof -
  have "bounded q \<Longrightarrow> bounded (foldl (\<lambda>q' jobId. cancel now jobId q') q ids)" for ids
    by (induction ids arbitrary: q) (simp_all add: cancel_bounded)
  then show "bounded q \<Longrightarrow> bounded (cancelAll now q)" by (simp add: cancelAll_def)
qed

lemma trackMetrics_bounded: "bounded (trackMetrics now job q) = bounded q"
  by (simp add: trackMetrics_def Let_def split: option.splits)

lemma executeJob_finally_bounded: "bounded q \<Longrightarrow> bounded (executeJob_finally now job q)"
  by (simp add: executeJob_finally_def processQueue_bounded bounded_fewer_active length_delete_le)

lemma fire_bounded:
  assumes "bounded q" "fire now a q = Some q'"
  shows "bounded q'"
proof (cases a)
  case Start
  then show ?thesis using assms by (auto simp: start_def processQueue_bounded)
next
  case Stop
  then show ?thesis using assms by (auto simp: stop_def)
next
  case (Enqueue uuid input)
  then show ?thesis using assms
    by (auto simp: enqueue_def Let_def processQueue_bounded split: if_splits)
next
  case (Cancel jobId)
  then show ?thesis using assms by (auto simp: cancel_bounded)
next
  case CancelAll
  then show ?thesis using assms by (auto simp: cancelAll_bounded)
next
  case (ExecutorResolves job ctx res)
  then show ?thesis using assms
    by (auto simp: executeJob_resolved_def Let_def trackMetrics_bounded bounded_resume
          intro!: executeJob_finally_bounded split: if_splits)
next
  case (ExecutorRejects job ctx err)
  then show ?thesis using assms
    by (auto simp: handleJobFailure_def Let_def bounded_def resume_def
          filter_isThrottle_remove1 split: if_splits)
next
  case (RetryDelayElapsed job)
  then show ?thesis using assms
    by (auto simp: handleJobFailure_resumed_def Let_def bounded_resume processQueue_bounded
          intro!: bounded_suspend' split: if_splits)
next
  case (FailureHandled job)
  then show ?thesis using assms
    by (auto simp: bounded_resume intro!: executeJob_finally_bounded split: if_splits)
next
  case (ThrottleElapsed job ctx)
  with assms have mem: "AwaitThrottle job ctx \<in> set (suspended q)"
    and q': "q' = processQueue_resumed now job ctx (resume (AwaitThrottle job ctx) q)"
    by (auto split: if_splits)
  have none: "filter isThrottle (suspended (resume (AwaitThrottle job ctx) q)) = []"
    using assms(1) mem by (simp add: resume_def bounded_def single_throttle)
  have "filter isThrottle (suspended q) \<noteq> []"
    using mem isThrottle.simps(1) unfolding filter_empty_conv by blast
  then have proc: "processing q" and lt: "int (length (activeJobs q)) < maxParallel (options q)"
    using assms(1) by (auto simp: bounded_def)
  have "int (length (AList.update (jid job) (runningJobOf now job, ctx) (activeJobs q)))
          \<le> max 0 (maxParallel (options q))"
    using lt length_update_le [of "jid job" "(runningJobOf now job, ctx)" "activeJobs q"]
    by linarith
  then show ?thesis
    unfolding q' processQueue_resumed_def
    using none proc by (intro processLoop_bounded) (simp_all add: resume_def)
qed

lemma reachable_bounded: "reachable p q \<Longrightarrow> bounded q"
proof (induction rule: reachable.induct)
  case reachable_new
  then show ?case by (simp add: bounded_def newJobQueue_def)
next
  case (reachable_fire q now a q')
  then show ?case using fire_bounded by blast
qed



lemma schedule_reachable:
  "reachable p q \<Longrightarrow> schedule tr q = Some q' \<Longrightarrow> reachable p q'"
proof (induction tr arbitrary: q)
  case Nil
  then show ?case by simp
next
  case (Cons x tr)
  obtain now st where x: "x = (now, st)" by (cases x)
  show ?case
  proof (cases st)
    case (Call a)
    with Cons.prems x obtain q1 where "fire now a q = Some q1" "schedule tr q1 = Some q'"
      by (auto split: option.splits)
    then show ?thesis using Cons.IH Cons.prems(1) reachable_fire by blast
  next
    case (Resume jobId w)
    with Cons.prems x obtain q1 where r: "resumeJob now jobId w q = Some q1"
      and "schedule tr q1 = Some q'"
      by (auto split: option.splits)
    from r obtain a where "fire now a q = Some q1"
      by (auto simp: resumeJob_def split: option.splits)
    then show ?thesis using Cons.IH Cons.prems(1) reachable_fire \<open>schedule tr q1 = Some q'\<close>
      by blast
  qed
qed

subsection \<open>Bounded concurrency\<close>

text \<open>In every reachable state the active set, whose size \<open>getSnapshot\<close> reports as
  \<open>activeCount\<close>, holds at most \<open>maxParallel\<close> entries.\<close>

lemma activeCount_bounded:
  assumes "reachable p q"
  shows "int (activeCount (getSnapshot q)) \<le> max 0 (maxParallel (options q))"
  using reachable_bounded [OF assms] by (simp add: bounded_def getSnapshot_def Let_def)

text \<open>
  C3, at the failing input \<open>retryThenTwoMore\<close> with \<open>maxParallel = 2\<close> and
  \<open>retryCount = 2\<close>: the schedule is accepted, and in the state it reaches three jobs
  have status running, while \<open>activeCount\<close> is 2. The \<open>finally\<close> block of the first
  attempt of A has deleted the entry of its second attempt from the active set.
\<close>

theorem three_running_jobs_with_two_slots:
  "schedule retryThenTwoMore (newJobQueue (queueOptions 2 2)) = Some threeRunning
   \<and> maxParallel (options threeRunning) = 2
   \<and> countStatus Running threeRunning = 3
   \<and> activeCount (getSnapshot threeRunning) = 2
   \<and> map fst (activeJobs threeRunning) = [''B'', ''C'']
   \<and> invocations threeRunning ''A'' = 2
   \<and> invocations threeRunning ''B'' = 1
   \<and> invocations threeRunning ''C'' = 1"
  by code_simp

subsection \<open>Retry\<close>

text \<open>
  C1, at the failing input \<open>retryCount = 1\<close> (the default): a job whose executor throws
  at every call is run until nothing of it is suspended. Its executor has been called
  once, not twice; the job is failed with \<open>completedAt\<close> set and \<open>attempt = 1\<close>.
\<close>

theorem always_throwing_job_with_retryCount_1:
  "retryCount (options (the (alwaysThrowing 4 1))) = 1
   \<and> alwaysThrowing 4 1 \<noteq> None
   \<and> invocations (the (alwaysThrowing 4 1)) ''A'' = 1
   \<and> attempt (metrics (the (getJob (the (alwaysThrowing 4 1)) ''A''))) = 1
   \<and> status (the (getJob (the (alwaysThrowing 4 1)) ''A'')) = Failed
   \<and> completedAt (metrics (the (getJob (the (alwaysThrowing 4 1)) ''A''))) = Some 5
   \<and> suspended (the (alwaysThrowing 4 1)) = []"
  by code_simp

text \<open>
  C2, counterexample. No registered strategy supports the host of job A, so the executor
  throws the configuration error; with \<open>retryCount = 2\<close> the job does not fail on this
  first attempt: it is queued again, waiting for the retry delay.
\<close>

theorem no_strategy_job_is_retried_counterexample:
  "getStrategyForHost [(''winrm'', winrmStrategy)] (host exampleContext) = None
   \<and> executeJob [(''winrm'', winrmStrategy)] firstAttempt exampleContext
       = Inl (ErrorObject ''Error'' (noStrategyMessage exampleHost))
   \<and> schedule noStrategySchedule (newJobQueue (queueOptions 4 2)) = Some noStrategyRetried
   \<and> retryCount (options noStrategyRetried) = 2
   \<and> status (the (getJob noStrategyRetried ''A'')) = Queued
   \<and> waitingQueue noStrategyRetried = [''A'']
   \<and> suspended noStrategyRetried = [AwaitRetryDelay firstAttempt]"
proof (intro conjI)
  show "getStrategyForHost [(''winrm'', winrmStrategy)] (host exampleContext) = None"
    by (simp add: getStrategyForHost_def winrmStrategy_def exampleContext_def exampleHost_def)
  then show "executeJob [(''winrm'', winrmStrategy)] firstAttempt exampleContext
       = Inl (ErrorObject ''Error'' (noStrategyMessage exampleHost))"
    by (simp add: executeJob_def exampleContext_def)
qed code_simp+

text \<open>
  C2, amended. For every job whose host is supported by no registered strategy, the
  executor throws the no-strategy configuration error at every call. The queue handles
  it as any exception of the executor: when no attempt remains
  (\<open>retryCount - attempt \<le> 0\<close>, always so when \<open>retryCount\<close> is 0) the job fails at once,
  with the message of the configuration error as its terminal error, and is not put back
  into the FIFO; when an attempt remains the job is queued again for a retry.
\<close>

theorem no_strategy_error_handling:
  assumes "getStrategyForHost strategies (host ctx) = None"
    and "AwaitExecutor job ctx \<in> set (suspended q)"
  shows "executeJob strategies job ctx = Inl (ErrorObject ''Error'' (noStrategyMessage (host ctx)))
    \<and> fire now (ExecutorRejects job ctx (ErrorObject ''Error'' (noStrategyMessage (host ctx)))) q
        = Some (handleJobFailure now job (ErrorObject ''Error'' (noStrategyMessage (host ctx)))
                  (resume (AwaitExecutor job ctx) q))
    \<and> (retryCount (options q) - int (attempt (metrics job)) \<le> 0 \<longrightarrow>
          map_option status
            (getJob (handleJobFailure now job (ErrorObject ''Error'' (noStrategyMessage (host ctx)))
                       (resume (AwaitExecutor job ctx) q)) (jid job)) = Some Failed
        \<and> map_option error
            (getJob (handleJobFailure now job (ErrorObject ''Error'' (noStrategyMessage (host ctx)))
                       (resume (AwaitExecutor job ctx) q)) (jid job))
            = Some (Some (noStrategyMessage (host ctx)))
        \<and> waitingQueue (handleJobFailure now job (ErrorObject ''Error'' (noStrategyMessage (host ctx)))
                           (resume (AwaitExecutor job ctx) q)) = waitingQueue q)
    \<and> (retryCount (options q) - int (attempt (metrics job)) > 0 \<longrightarrow>
          map_option status
            (getJob (handleJobFailure now job (ErrorObject ''Error'' (noStrategyMessage (host ctx)))
                       (resume (AwaitExecutor job ctx) q)) (jid job)) = Some Queued
        \<and> waitingQueue (handleJobFailure now job (ErrorObject ''Error'' (noStrategyMessage (host ctx)))
                           (resume (AwaitExecutor job ctx) q)) = waitingQueue q @ [jid job])"
  using assms
  by (simp add: executeJob_def handleJobFailure_def Let_def getJob_def resume_def update_conv')

theorem no_strategy_error_handling_witness:
  "getStrategyForHost [(''winrm'', winrmStrategy)] (host exampleContext) = None
   \<and> AwaitExecutor firstAttempt exampleContext \<in> set (suspended (startedQueue 4 0))
   \<and> retryCount (options (startedQueue 4 0)) - int (attempt (metrics firstAttempt)) \<le> 0
   \<and> map_option status
        (getJob (handleJobFailure 2 firstAttempt (ErrorObject ''Error'' (noStrategyMessage exampleHost))
                   (resume (AwaitExecutor firstAttempt exampleContext) (startedQueue 4 0)))
           ''A'') = Some Failed
   \<and> AwaitExecutor firstAttempt exampleContext \<in> set (suspended (startedQueue 4 2))
   \<and> retryCount (options (startedQueue 4 2)) - int (attempt (metrics firstAttempt)) > 0
   \<and> map_option status
        (getJob (handleJobFailure 2 firstAttempt (ErrorObject ''Error'' (noStrategyMessage exampleHost))
                   (resume (AwaitExecutor firstAttempt exampleContext) (startedQueue 4 2)))
           ''A'') = Some Queued"
proof -
  have s: "getStrategyForHost [(''winrm'', winrmStrategy)] (host exampleContext) = None"
    by (simp add: getStrategyForHost_def winrmStrategy_def exampleContext_def exampleHost_def)
  have h: "host exampleContext = exampleHost"
    by (simp add: exampleContext_def)
  have i: "jid firstAttempt = ''A''"
    by code_simp
  have a0: "AwaitExecutor firstAttempt exampleContext \<in> set (suspended (startedQueue 4 0))"
    by code_simp
  have r0: "retryCount (options (startedQueue 4 0)) - int (attempt (metrics firstAttempt)) \<le> 0"
    by code_simp
  have a2: "AwaitExecutor firstAttempt exampleContext \<in> set (suspended (startedQueue 4 2))"
    by code_simp
  have r2: "retryCount (options (startedQueue 4 2)) - int (attempt (metrics firstAttempt)) > 0"
    by code_simp
  show ?thesis
    using s a0 r0 a2 r2 no_strategy_error_handling [OF s a0, of 2]
      no_strategy_error_handling [OF s a2, of 2]
    unfolding h i by simp
qed

subsection \<open>Snapshot counts\<close>

text \<open>
  C6, at the failing input \<open>retryWindowSchedule\<close> with \<open>retryCount = 2\<close>: during the
  retry delay the one job enqueued is counted both as waiting and as active, so the four
  counts of the snapshot add up to 2 while one job was enqueued and none is cancelled.
  This is the snapshot the queue has just published.
\<close>

theorem snapshot_counts_in_retry_window:
  "schedule retryWindowSchedule (newJobQueue (queueOptions 4 2)) = Some retryWindow
   \<and> waitingCount (getSnapshot retryWindow) = 1
   \<and> activeCount (getSnapshot retryWindow) = 1
   \<and> completedCount (getSnapshot retryWindow) = 0
   \<and> failedCount (getSnapshot retryWindow) = 0
   \<and> enqueuedTotal retryWindow = 1
   \<and> countStatus Cancelled retryWindow = 0
   \<and> last (emitted retryWindow) = SnapshotEvent (getSnapshot retryWindow)"
  by code_simp

subsection \<open>Places of a job, and cancellation\<close>

lemma starters_frame [simp]:
  "starters (q\<lparr>jobs := a\<rparr>) k = starters q k"
  "starters (q\<lparr>waitingQueue := b\<rparr>) k = starters q k"
  "starters (q\<lparr>activeJobs := c\<rparr>) k = starters q k"
  "starters (q\<lparr>processing := e\<rparr>) k = starters q k"
  "starters (q\<lparr>running := f\<rparr>) k = starters q k"
  "starters (q\<lparr>lastStartTimestamp := g\<rparr>) k = starters q k"
  "starters (q\<lparr>contextByJob := h\<rparr>) k = starters q k"
  "starters (q\<lparr>completedDurations := i\<rparr>) k = starters q k"
  "starters (q\<lparr>completionHistory := j\<rparr>) k = starters q k"
  "starters (emit ev q) k = starters q k"
  "starters (publishJobs q) k = starters q k"
  by (simp_all add: starters_def)

lemma starters_suspend [simp]:
  "starters (q\<lparr>suspended := suspended q @ [x]\<rparr>) k
     = starters q k + (if isStarter x \<and> jid (jobOf x) = k then 1 else 0)"
  by (simp add: starters_def)

lemma starters_resume:
  "starters (resume x q) k
     = starters q k - (if x \<in> set (suspended q) \<and> isStarter x \<and> jid (jobOf x) = k then 1 else 0)"
  by (auto simp: starters_def resume_def filter_remove1 length_remove1 remove1_idem)

lemma starters_pos:
  "x \<in> set (suspended q) \<Longrightarrow> isStarter x \<Longrightarrow> 0 < starters q (jid (jobOf x))"
  by (auto simp: starters_def filter_empty_conv)

lemma count_list_tl:
  "xs \<noteq> [] \<Longrightarrow> count_list (tl xs) k = count_list xs k - (if hd xs = k then 1 else 0)"
  by (cases xs) auto

lemma count_list_remove1_if:
  "count_list (remove1 x xs) k = count_list xs k - (if x = k \<and> x \<in> set xs then 1 else 0)"
  by (induction xs) auto

lemma count_list_pos: "0 < count_list xs k \<longleftrightarrow> k \<in> set xs"
  using count_list_0_iff [of xs k] by auto

lemma wellFormed_frame [simp]:
  "wellFormed (q\<lparr>activeJobs := c\<rparr>) = wellFormed q"
  "wellFormed (q\<lparr>processing := e\<rparr>) = wellFormed q"
  "wellFormed (q\<lparr>running := f\<rparr>) = wellFormed q"
  "wellFormed (q\<lparr>lastStartTimestamp := g\<rparr>) = wellFormed q"
  "wellFormed (q\<lparr>contextByJob := h\<rparr>) = wellFormed q"
  "wellFormed (q\<lparr>completedDurations := i\<rparr>) = wellFormed q"
  "wellFormed (q\<lparr>completionHistory := j\<rparr>) = wellFormed q"
  "wellFormed (publishJobs q) = wellFormed q"
  by (simp_all add: wellFormed_def occurrences_def)

lemma wellFormed_emit:
  "\<not> (\<exists>job c. ev = ExecutorCalled job c) \<Longrightarrow> wellFormed (emit ev q) = wellFormed q"
  by (cases ev) (simp_all add: wellFormed_def occurrences_def)

lemma wellFormedI:
  assumes "\<And>k. occurrences q k \<le> 1"
    and "\<And>k. 0 < occurrences q k \<Longrightarrow> map_of (jobs q) k \<noteq> None"
    and "\<And>k j. map_of (jobs q) k = Some j \<Longrightarrow> jid j = k"
    and "\<And>k j. map_of (jobs q) k = Some j \<Longrightarrow> attempt (metrics j) = invocations q k"
    and "\<And>k. map_of (jobs q) k = None \<Longrightarrow> invocations q k = 0"
    and "\<And>k. k \<in> set (waitingQueue q) \<Longrightarrow>
           \<exists>j. map_of (jobs q) k = Some j \<and> status j = Queued \<and> startedAt (metrics j) = None"
    and "\<And>x. x \<in> set (suspended q) \<Longrightarrow> isStarter x \<Longrightarrow>
           attempt (metrics (jobOf x)) = invocations q (jid (jobOf x))"
  shows "wellFormed q"
  unfolding wellFormed_def using assms by blast

lemma wellFormedD:
  assumes "wellFormed q"
  shows "occurrences q k \<le> 1"
    and "0 < occurrences q k \<Longrightarrow> map_of (jobs q) k \<noteq> None"
    and "map_of (jobs q) k = Some j \<Longrightarrow> jid j = k"
    and "map_of (jobs q) k = Some j \<Longrightarrow> attempt (metrics j) = invocations q k"
    and "map_of (jobs q) k = None \<Longrightarrow> invocations q k = 0"
    and "k \<in> set (waitingQueue q) \<Longrightarrow>
           \<exists>j. map_of (jobs q) k = Some j \<and> status j = Queued \<and> startedAt (metrics j) = None"
    and "x \<in> set (suspended q) \<Longrightarrow> isStarter x \<Longrightarrow>
           attempt (metrics (jobOf x)) = invocations q (jid (jobOf x))"
  using assms unfolding wellFormed_def by blast+

lemma wellFormed_shrink:
  assumes wf: "wellFormed q"
    and occ: "\<And>k. occurrences q' k \<le> occurrences q k"
    and wq: "set (waitingQueue q') \<subseteq> set (waitingQueue q)"
    and sus: "\<And>x. x \<in> set (suspended q') \<Longrightarrow> isStarter x \<Longrightarrow> x \<in> set (suspended q)"
    and jobs: "jobs q' = jobs q"
    and inv: "\<And>k. invocations q' k = invocations q k"
  shows "wellFormed q'"
proof (rule wellFormedI)
  fix k
  show "occurrences q' k \<le> 1"
    using occ [of k] wellFormedD(1) [OF wf, of k] by linarith
  show "map_of (jobs q') k \<noteq> None" if "0 < occurrences q' k"
    using that occ [of k] wellFormedD(2) [OF wf, of k] jobs by simp
  show "invocations q' k = 0" if "map_of (jobs q') k = None"
    using that wellFormedD(5) [OF wf, of k] jobs inv by simp
  show "\<exists>j. map_of (jobs q') k = Some j \<and> status j = Queued \<and> startedAt (metrics j) = None"
    if "k \<in> set (waitingQueue q')"
    using that wq wellFormedD(6) [OF wf, of k] jobs by auto
next
  fix k j
  assume "map_of (jobs q') k = Some j"
  then show "jid j = k" and "attempt (metrics j) = invocations q' k"
    using wellFormedD(3,4) [OF wf, of k j] jobs inv by simp_all
next
  fix x
  assume "x \<in> set (suspended q')" "isStarter x"
  then show "attempt (metrics (jobOf x)) = invocations q' (jid (jobOf x))"
    using sus wellFormedD(7) [OF wf, of x] inv by auto
qed

lemma wellFormed_tl:
  assumes "wellFormed q"
  shows "wellFormed (q\<lparr>waitingQueue := tl (waitingQueue q)\<rparr>)"
proof (rule wellFormed_shrink [OF assms])
  show "occurrences (q\<lparr>waitingQueue := tl (waitingQueue q)\<rparr>) k \<le> occurrences q k" for k
    by (cases "waitingQueue q") (simp_all add: occurrences_def)
  show "set (waitingQueue (q\<lparr>waitingQueue := tl (waitingQueue q)\<rparr>)) \<subseteq> set (waitingQueue q)"
    by (cases "waitingQueue q") auto
qed simp_all

lemma wellFormed_resume:
  assumes "wellFormed q"
  shows "wellFormed (resume x q)"
proof (rule wellFormed_shrink [OF assms])
  show "occurrences (resume x q) k \<le> occurrences q k" for k
    by (simp add: occurrences_def starters_resume) (simp add: resume_def)
  show "y \<in> set (suspended q)" if "y \<in> set (suspended (resume x q))" for y
    using that set_remove1_subset [of x "suspended q"] by (auto simp: resume_def)
qed (simp_all add: resume_def)

lemma wellFormed_store:
  assumes wf: "wellFormed q"
    and J: "map_of (jobs q') = (map_of (jobs q))(K \<mapsto> j')"
    and jid: "jid j' = K"
    and att: "attempt (metrics j') = invocations q K"
    and inv: "\<And>k. invocations q' k = invocations q k"
    and occK: "occurrences q' K \<le> 1"
    and occ: "\<And>k. k \<noteq> K \<Longrightarrow> occurrences q' k \<le> occurrences q k"
    and wq: "set (waitingQueue q') \<subseteq> insert K (set (waitingQueue q))"
    and fifoK: "K \<in> set (waitingQueue q') \<Longrightarrow> status j' = Queued \<and> startedAt (metrics j') = None"
    and sus: "\<And>x. x \<in> set (suspended q') \<Longrightarrow> isStarter x \<Longrightarrow>
                x \<in> set (suspended q)
                \<or> (jid (jobOf x) = K \<and> attempt (metrics (jobOf x)) = invocations q K)"
  shows "wellFormed q'"
proof (rule wellFormedI)
  fix k
  show "occurrences q' k \<le> 1"
  proof (cases "k = K")
    case True
    then show ?thesis using occK by simp
  next
    case False
    then show ?thesis using occ [of k] wellFormedD(1) [OF wf, of k] by linarith
  qed
  show "map_of (jobs q') k \<noteq> None" if pos: "0 < occurrences q' k"
  proof (cases "k = K")
    case True
    then show ?thesis by (simp add: J)
  next
    case False
    then have "0 < occurrences q k" using occ [of k] pos by linarith
    then show ?thesis using wellFormedD(2) [OF wf, of k] False by (simp add: J)
  qed
  show "invocations q' k = 0" if "map_of (jobs q') k = None"
    using that wellFormedD(5) [OF wf, of k] by (auto simp: J inv split: if_splits)
  show "\<exists>j. map_of (jobs q') k = Some j \<and> status j = Queued \<and> startedAt (metrics j) = None"
    if mem: "k \<in> set (waitingQueue q')"
  proof (cases "k = K")
    case True
    then show ?thesis using fifoK mem by (simp add: J)
  next
    case False
    then have "k \<in> set (waitingQueue q)" using wq mem by auto
    then show ?thesis using wellFormedD(6) [OF wf, of k] False by (simp add: J)
  qed
next
  fix k j
  assume a: "map_of (jobs q') k = Some j"
  show "jid j = k"
    using a jid wellFormedD(3) [OF wf, of k j] by (auto simp: J split: if_splits)
  show "attempt (metrics j) = invocations q' k"
    using a att wellFormedD(4) [OF wf, of k j] by (auto simp: J inv split: if_splits)
next
  fix x
  assume "x \<in> set (suspended q')" "isStarter x"
  then show "attempt (metrics (jobOf x)) = invocations q' (jid (jobOf x))"
    using sus [of x] wellFormedD(7) [OF wf, of x] by (auto simp: inv)
qed

lemma jid_runningJobOf [simp]: "jid (runningJobOf now job) = jid job"
  by (simp add: runningJobOf_def)

lemma attempt_runningJobOf [simp]:
  "attempt (metrics (runningJobOf now job)) = Suc (attempt (metrics job))"
  by (simp add: runningJobOf_def)

lemma occurrences_startJob:
  "occurrences (startJob now job c q) k = occurrences q k + (if k = jid job then 1 else 0)"
  by (simp add: occurrences_def starters_def)

lemma wellFormed_startJob:
  assumes wf: "wellFormed q"
    and fresh: "occurrences q (jid job) = 0"
    and known: "map_of (jobs q) (jid job) \<noteq> None"
    and att: "attempt (metrics job) = invocations q (jid job)"
  shows "wellFormed (startJob now job c q)"
proof (rule wellFormedI)
  fix k
  show "occurrences (startJob now job c q) k \<le> 1"
    using fresh wellFormedD(1) [OF wf, of k] by (simp add: occurrences_startJob)
  show "map_of (jobs (startJob now job c q)) k \<noteq> None" if "0 < occurrences (startJob now job c q) k"
    using that wellFormedD(2) [OF wf, of k]
    by (auto simp: occurrences_startJob update_conv' split: if_splits)
  show "invocations (startJob now job c q) k = 0" if "map_of (jobs (startJob now job c q)) k = None"
    using that wellFormedD(5) [OF wf, of k] by (auto simp: update_conv' split: if_splits)
  show "\<exists>j. map_of (jobs (startJob now job c q)) k = Some j \<and> status j = Queued
            \<and> startedAt (metrics j) = None"
    if mem: "k \<in> set (waitingQueue (startJob now job c q))"
  proof -
    have "k \<in> set (waitingQueue q)" using mem by simp
    then have "0 < occurrences q k" by (simp add: occurrences_def count_list_pos)
    then have "k \<noteq> jid job" using fresh by auto
    then show ?thesis using wellFormedD(6) [OF wf, of k] \<open>k \<in> set (waitingQueue q)\<close>
      by (simp add: update_conv')
  qed
next
  fix k j
  assume a: "map_of (jobs (startJob now job c q)) k = Some j"
  show "jid j = k"
    using a wellFormedD(3) [OF wf, of k j] by (auto simp: update_conv' split: if_splits)
  show "attempt (metrics j) = invocations (startJob now job c q) k"
    using a att wellFormedD(4) [OF wf, of k j] by (auto simp: update_conv' split: if_splits)
next
  fix x
  assume x: "x \<in> set (suspended (startJob now job c q))" and st: "isStarter x"
  show "attempt (metrics (jobOf x)) = invocations (startJob now job c q) (jid (jobOf x))"
  proof (cases "x \<in> set (suspended q)")
    case True
    then have "0 < starters q (jid (jobOf x))" using st by (rule starters_pos)
    then have "jid (jobOf x) \<noteq> jid job" using fresh by (auto simp: occurrences_def)
    then show ?thesis using wellFormedD(7) [OF wf True st] by simp
  next
    case False
    then have "x = AwaitExecutor (runningJobOf now job) c" using x by simp
    then show ?thesis using att by simp
  qed
qed

lemma head_token:
  assumes wf: "wellFormed q" and ne: "waitingQueue q \<noteq> []"
    and job: "map_of (jobs q) (hd (waitingQueue q)) = Some job"
  shows "jid job = hd (waitingQueue q)"
    and "attempt (metrics job) = invocations q (hd (waitingQueue q))"
    and "count_list (tl (waitingQueue q)) (hd (waitingQueue q)) = 0"
    and "starters q (hd (waitingQueue q)) = 0"
proof -
  show "jid job = hd (waitingQueue q)" using wellFormedD(3) [OF wf job] .
  show "attempt (metrics job) = invocations q (hd (waitingQueue q))"
    using wellFormedD(4) [OF wf job] .
  have "hd (waitingQueue q) \<in> set (waitingQueue q)" using ne by simp
  then have "0 < count_list (waitingQueue q) (hd (waitingQueue q))"
    by (simp add: count_list_pos)
  moreover have "occurrences q (hd (waitingQueue q)) \<le> 1"
    using wellFormedD(1) [OF wf] .
  ultimately have c: "count_list (waitingQueue q) (hd (waitingQueue q)) = 1"
    and s: "starters q (hd (waitingQueue q)) = 0"
    by (simp_all add: occurrences_def)
  show "starters q (hd (waitingQueue q)) = 0" by (rule s)
  show "count_list (tl (waitingQueue q)) (hd (waitingQueue q)) = 0"
    using c ne by (simp add: count_list_tl)
qed

lemma processLoop_wellFormed: "wellFormed q \<Longrightarrow> wellFormed (processLoop now q)"
proof (induction now q rule: processLoop_cases)
  case (exit now q)
  then show ?case by (simp add: processLoop_exit)
next
  case (break now q)
  then show ?case using wellFormed_tl [of q] by (simp add: processLoop_break)
next
  case (continue now q)
  then show ?case using wellFormed_tl [of q] by (simp add: processLoop_continue)
next
  case (throttle now q job ctx)
  note wf = \<open>wellFormed q\<close>
  note ne = \<open>waitingQueue q \<noteq> []\<close>
  note job = \<open>map_of (jobs q) (hd (waitingQueue q)) = Some job\<close>
  note h = head_token [OF wf ne job]
  let ?K = "hd (waitingQueue q)"
  let ?q' = "q\<lparr>waitingQueue := tl (waitingQueue q),
                suspended := suspended q @ [AwaitThrottle job ctx]\<rparr>"
  have "wellFormed ?q'"
  proof (rule wellFormed_store [OF wf, where K = ?K and j' = job])
    show "map_of (jobs ?q') = (map_of (jobs q))(?K \<mapsto> job)"
      using job by (simp add: fun_upd_idem)
    show "jid job = ?K" by (rule h(1))
    show "attempt (metrics job) = invocations q ?K" by (rule h(2))
    show "invocations ?q' k = invocations q k" for k by simp
    show "occurrences ?q' ?K \<le> 1"
      using h by (simp add: occurrences_def starters_def)
    show "occurrences ?q' k \<le> occurrences q k" if "k \<noteq> ?K" for k
      using that h(1) ne by (simp add: occurrences_def starters_def count_list_tl)
    show "set (waitingQueue ?q') \<subseteq> insert ?K (set (waitingQueue q))"
      using ne by (cases "waitingQueue q") auto
    show "status job = Queued \<and> startedAt (metrics job) = None" if "?K \<in> set (waitingQueue ?q')"
      using that h(3) by (simp add: count_list_0_iff)
    show "x \<in> set (suspended q)
            \<or> (jid (jobOf x) = ?K \<and> attempt (metrics (jobOf x)) = invocations q ?K)"
      if "x \<in> set (suspended ?q')" "isStarter x" for x
      using that h(1,2) by auto
  qed
  then show ?case using throttle by (simp add: processLoop_throttle)
next
  case (start now q job ctx)
  note wf = \<open>wellFormed q\<close>
  note ne = \<open>waitingQueue q \<noteq> []\<close>
  note job = \<open>map_of (jobs q) (hd (waitingQueue q)) = Some job\<close>
  note h = head_token [OF wf ne job]
  let ?q1 = "q\<lparr>waitingQueue := tl (waitingQueue q), lastStartTimestamp := now\<rparr>"
  have "wellFormed ?q1" using wellFormed_tl [OF wf] by simp
  moreover have "occurrences ?q1 (jid job) = 0"
    using h by (simp add: occurrences_def)
  moreover have "map_of (jobs ?q1) (jid job) \<noteq> None"
    using job h(1) by simp
  moreover have "attempt (metrics job) = invocations ?q1 (jid job)"
    using h(1,2) by simp
  ultimately have "wellFormed (startJob now job ctx ?q1)"
    by (rule wellFormed_startJob)
  then show ?case using start by (simp add: processLoop_start)
qed

lemma processQueue_wellFormed: "wellFormed q \<Longrightarrow> wellFormed (processQueue now q)"
  by (simp add: processQueue_def processLoop_wellFormed)

lemma wellFormed_suspend_other:
  assumes "wellFormed q" "\<not> isStarter x"
  shows "wellFormed (q\<lparr>suspended := suspended q @ [x]\<rparr>)"
proof (rule wellFormed_shrink [OF assms(1)])
  show "occurrences (q\<lparr>suspended := suspended q @ [x]\<rparr>) k \<le> occurrences q k" for k
    using assms(2) by (simp add: occurrences_def)
  show "y \<in> set (suspended q)"
    if "y \<in> set (suspended (q\<lparr>suspended := suspended q @ [x]\<rparr>))" "isStarter y" for y
    using that assms(2) by auto
qed simp_all

lemma resumed_token:
  assumes wf: "wellFormed q" and x: "x \<in> set (suspended q)" and st: "isStarter x"
  shows "occurrences (resume x q) (jid (jobOf x)) = 0"
    and "jid (jobOf x) \<notin> set (waitingQueue q)"
    and "map_of (jobs q) (jid (jobOf x)) \<noteq> None"
    and "attempt (metrics (jobOf x)) = invocations q (jid (jobOf x))"
proof -
  have pos: "0 < starters q (jid (jobOf x))" using x st by (rule starters_pos)
  have le: "occurrences q (jid (jobOf x)) \<le> 1" using wellFormedD(1) [OF wf] .
  from pos le have c: "count_list (waitingQueue q) (jid (jobOf x)) = 0"
    and s: "starters q (jid (jobOf x)) = 1"
    by (simp_all add: occurrences_def)
  show "jid (jobOf x) \<notin> set (waitingQueue q)" using c by (simp add: count_list_0_iff)
  show "occurrences (resume x q) (jid (jobOf x)) = 0"
    using c s x st by (simp add: occurrences_def starters_resume) (simp add: resume_def)
  show "map_of (jobs q) (jid (jobOf x)) \<noteq> None"
    using wellFormedD(2) [OF wf, of "jid (jobOf x)"] pos by (simp add: occurrences_def)
  show "attempt (metrics (jobOf x)) = invocations q (jid (jobOf x))"
    using wellFormedD(7) [OF wf x st] .
qed

lemma enqueue_eq: "enqueue now uuid input q = processQueue now (enqueued now uuid input q)"
  by (simp add: enqueue_def Let_def createInitialJob_def)

lemma fresh_identifier:
  assumes wf: "wellFormed q" and fresh: "uuid \<notin> set (map fst (jobs q))"
  shows "map_of (jobs q) uuid = None" and "occurrences q uuid = 0" and "invocations q uuid = 0"
proof -
  show none: "map_of (jobs q) uuid = None"
    using fresh by (simp add: map_of_eq_None_iff)
  show "occurrences q uuid = 0"
    using wellFormedD(2) [OF wf, of uuid] none by auto
  show "invocations q uuid = 0"
    using wellFormedD(5) [OF wf none] .
qed

lemma enqueued_wellFormed:
  assumes wf: "wellFormed q" and fresh: "uuid \<notin> set (map fst (jobs q))"
  shows "wellFormed (enqueued now uuid input q)"
proof -
  let ?job = "createInitialJob now uuid input"
  let ?q1 = "q\<lparr>jobs := AList.update uuid ?job (jobs q),
                waitingQueue := waitingQueue q @ [uuid],
                contextByJob := AList.update uuid (contextI input) (contextByJob q)\<rparr>"
  note f = fresh_identifier [OF wf fresh]
  have "wellFormed ?q1"
  proof (rule wellFormed_store [OF wf, where K = uuid and j' = ?job])
    show "map_of (jobs ?q1) = (map_of (jobs q))(uuid \<mapsto> ?job)"
      by (simp add: update_conv')
    show "jid ?job = uuid" by (simp add: createInitialJob_def)
    show "attempt (metrics ?job) = invocations q uuid"
      using f(3) by (simp add: createInitialJob_def)
    show "occurrences ?q1 uuid \<le> 1"
      using f(2) by (simp add: occurrences_def)
    show "occurrences ?q1 k \<le> occurrences q k" if "k \<noteq> uuid" for k
      using that by (simp add: occurrences_def)
    show "status ?job = Queued \<and> startedAt (metrics ?job) = None"
      by (simp add: createInitialJob_def)
  qed auto
  then show ?thesis by (simp add: wellFormed_emit)
qed

lemma enqueue_wellFormed:
  assumes "wellFormed q" "uuid \<notin> set (map fst (jobs q))"
  shows "wellFormed (enqueue now uuid input q)"
  unfolding enqueue_eq by (intro processQueue_wellFormed enqueued_wellFormed assms)

lemma cancel_wellFormed:
  assumes wf: "wellFormed q"
  shows "wellFormed (cancel now jobId q)"
proof (cases "map_of (jobs q) jobId")
  case None
  then show ?thesis using wf by (simp add: cancel_def)
next
  case (Some job)
  show ?thesis
  proof (cases "jobId \<in> set (map fst (activeJobs q))")
    case True
    then show ?thesis using wf Some by (simp add: cancel_def)
  next
    case False
    let ?c = "job\<lparr>status := Cancelled,
                   metrics := (metrics job)\<lparr>completedAt := Some now, elapsedMs := Some 0\<rparr>\<rparr>"
    let ?q1 = "q\<lparr>waitingQueue := remove1 jobId (waitingQueue q),
                  jobs := AList.update jobId ?c (jobs q)\<rparr>"
    have le: "occurrences q jobId \<le> 1" using wellFormedD(1) [OF wf] .
    have "wellFormed ?q1"
    proof (rule wellFormed_store [OF wf, where K = jobId and j' = ?c])
      show "map_of (jobs ?q1) = (map_of (jobs q))(jobId \<mapsto> ?c)"
        by (simp add: update_conv')
      show "jid ?c = jobId" using wellFormedD(3) [OF wf Some] by simp
      show "attempt (metrics ?c) = invocations q jobId"
        using wellFormedD(4) [OF wf Some] by simp
      show "occurrences ?q1 jobId \<le> 1"
        using le by (simp add: occurrences_def count_list_remove1_if)
      show "occurrences ?q1 k \<le> occurrences q k" if "k \<noteq> jobId" for k
        using that by (simp add: occurrences_def count_list_remove1_if)
      show "set (waitingQueue ?q1) \<subseteq> insert jobId (set (waitingQueue q))"
        using set_remove1_subset [of jobId "waitingQueue q"] by auto
      show "status ?c = Queued \<and> startedAt (metrics ?c) = None"
        if "jobId \<in> set (waitingQueue ?q1)"
      proof -
        have "jobId \<in> set (remove1 jobId (waitingQueue q))"
          using that by simp
        then have a: "count_list (remove1 jobId (waitingQueue q)) jobId \<noteq> 0"
          using count_list_0_iff [of "remove1 jobId (waitingQueue q)" jobId] by blast
        have b: "count_list (remove1 jobId (waitingQueue q)) jobId
                   = count_list (waitingQueue q) jobId
                     - (if jobId \<in> set (waitingQueue q) then 1 else 0)"
          using count_list_remove1_if [of jobId "waitingQueue q" jobId] by simp
        have "2 \<le> count_list (waitingQueue q) jobId"
        proof (cases "jobId \<in> set (waitingQueue q)")
          case True
          then show ?thesis using a b by simp
        next
          case False
          then have "count_list (waitingQueue q) jobId = 0" by (simp add: count_list_0_iff)
          then show ?thesis using a b by simp
        qed
        then show ?thesis using le by (simp add: occurrences_def)
      qed
    qed auto
    then have "wellFormed (emit (JobCompleted ?c) (publishJobs ?q1))"
      by (simp add: wellFormed_emit)
    then show ?thesis using Some False by (simp add: cancel_def Let_def)
  qed
qed

lemma cancelAll_wellFormed: "wellFormed q \<Longrightarrow> wellFormed (cancelAll now q)"
proof -
  have "wellFormed q \<Longrightarrow> wellFormed (foldl (\<lambda>q' jobId. cancel now jobId q') q ids)" for ids
    by (induction ids arbitrary: q) (simp_all add: cancel_wellFormed)
  then show "wellFormed q \<Longrightarrow> wellFormed (cancelAll now q)" by (simp add: cancelAll_def)
qed

lemma trackMetrics_fields [simp]:
  "jobs (trackMetrics now job q) = jobs q"
  "waitingQueue (trackMetrics now job q) = waitingQueue q"
  "suspended (trackMetrics now job q) = suspended q"
  "activeJobs (trackMetrics now job q) = activeJobs q"
  "options (trackMetrics now job q) = options q"
  "emitted (trackMetrics now job q) = emitted q"
  by (simp_all add: trackMetrics_def Let_def split: option.splits)

lemma wellFormed_trackMetrics [simp]: "wellFormed (trackMetrics now job q) = wellFormed q"
  by (simp add: trackMetrics_def Let_def split: option.splits)

lemma executeJob_finally_wellFormed:
  "wellFormed q \<Longrightarrow> wellFormed (executeJob_finally now job q)"
  by (simp add: executeJob_finally_def processQueue_wellFormed)

text \<open>Storing a job under the identifier of a resumed call of the executor.\<close>

lemma wellFormed_settle:
  assumes wf: "wellFormed q" and x: "AwaitExecutor job ctx \<in> set (suspended q)"
    and jid: "jid j' = jid job" and att: "attempt (metrics j') = attempt (metrics job)"
  shows "wellFormed (resume (AwaitExecutor job ctx) q
                       \<lparr>jobs := AList.update (jid job) j'
                                 (jobs (resume (AwaitExecutor job ctx) q))\<rparr>)"
    (is "wellFormed ?q1")
proof -
  note t = resumed_token [OF wf x, simplified]
  show ?thesis
  proof (rule wellFormed_store [OF wf, where K = "jid job" and j' = j'])
    show "map_of (jobs ?q1) = (map_of (jobs q))(jid job \<mapsto> j')"
      by (simp add: update_conv' resume_def)
    show "attempt (metrics j') = invocations q (jid job)" using att t(4) by simp
    show "invocations ?q1 k = invocations q k" for k by (simp add: resume_def)
    show "occurrences ?q1 (jid job) \<le> 1"
      using t(1) by (simp add: occurrences_def resume_def)
    show "occurrences ?q1 k \<le> occurrences q k" if "k \<noteq> jid job" for k
      by (simp add: occurrences_def starters_resume) (simp add: resume_def)
    show "set (waitingQueue ?q1) \<subseteq> insert (jid job) (set (waitingQueue q))"
      by (auto simp: resume_def)
    show "status j' = Queued \<and> startedAt (metrics j') = None"
      if "jid job \<in> set (waitingQueue ?q1)"
      using that t(2) by (simp add: resume_def)
    show "y \<in> set (suspended q)
            \<or> (jid (jobOf y) = jid job \<and> attempt (metrics (jobOf y)) = invocations q (jid job))"
      if "y \<in> set (suspended ?q1)" "isStarter y" for y
      using that set_remove1_subset [of "AwaitExecutor job ctx" "suspended q"]
      by (auto simp: resume_def)
  qed (rule jid)
qed

lemma executeJob_resolved_wellFormed:
  assumes wf: "wellFormed q" and x: "AwaitExecutor job ctx \<in> set (suspended q)"
  shows "wellFormed (executeJob_resolved now job res (resume (AwaitExecutor job ctx) q))"
  unfolding executeJob_resolved_def Let_def
  by (intro executeJob_finally_wellFormed)
     (simp add: wellFormed_emit wellFormed_settle [OF wf x])

lemma handleJobFailure_wellFormed:
  assumes wf: "wellFormed q" and x: "AwaitExecutor job ctx \<in> set (suspended q)"
  shows "wellFormed (handleJobFailure now job err (resume (AwaitExecutor job ctx) q))"
proof (cases "retryCount (options q) - int (attempt (metrics job)) > 0")
  case False
  let ?j = "job\<lparr>status := Failed,
                  metrics := (metrics job)
                    \<lparr>completedAt := Some now,
                     elapsedMs := Some (computeDuration
                       (Some (case startedAt (metrics job) of
                                Some s \<Rightarrow> s | None \<Rightarrow> queuedAt (metrics job))) now)\<rparr>,
                  error := Some (message_of err)\<rparr>"
  have "wellFormed (resume (AwaitExecutor job ctx) q
                       \<lparr>jobs := AList.update (jid job) ?j
                                 (jobs (resume (AwaitExecutor job ctx) q))\<rparr>)"
    by (rule wellFormed_settle [OF wf x]) simp_all
  then have "wellFormed (emit (JobFailed ?j err) (resume (AwaitExecutor job ctx) q
                       \<lparr>jobs := AList.update (jid job) ?j
                                 (jobs (resume (AwaitExecutor job ctx) q))\<rparr>))"
    by (simp add: wellFormed_emit)
  then have "wellFormed ((emit (JobFailed ?j err) (resume (AwaitExecutor job ctx) q
                       \<lparr>jobs := AList.update (jid job) ?j
                                 (jobs (resume (AwaitExecutor job ctx) q))\<rparr>))
                 \<lparr>suspended := suspended (emit (JobFailed ?j err)
                       (resume (AwaitExecutor job ctx) q
                       \<lparr>jobs := AList.update (jid job) ?j
                                 (jobs (resume (AwaitExecutor job ctx) q))\<rparr>))
                     @ [AwaitFailureHandled job]\<rparr>)"
    by (rule wellFormed_suspend_other) simp
  then show ?thesis using False
    by (simp add: handleJobFailure_def Let_def resume_def)
next
  case True
  note t = resumed_token [OF wf x, simplified]
  let ?j = "job\<lparr>status := Queued,
                  metrics := (metrics job)\<lparr>startedAt := None, completedAt := None,
                                          elapsedMs := None\<rparr>,
                  error := Some (String_of err)\<rparr>"
  let ?q1 = "resume (AwaitExecutor job ctx) q
               \<lparr>jobs := AList.update (jid job) ?j (jobs (resume (AwaitExecutor job ctx) q)),
                waitingQueue := waitingQueue (resume (AwaitExecutor job ctx) q) @ [jid job]\<rparr>"
  have "wellFormed ?q1"
  proof (rule wellFormed_store [OF wf, where K = "jid job" and j' = ?j])
    show "map_of (jobs ?q1) = (map_of (jobs q))(jid job \<mapsto> ?j)"
      by (simp add: update_conv' resume_def)
    show "attempt (metrics ?j) = invocations q (jid job)" using t(4) by simp
    show "invocations ?q1 k = invocations q k" for k by (simp add: resume_def)
    show "occurrences ?q1 (jid job) \<le> 1"
      using t(1) by (simp add: occurrences_def resume_def)
    show "occurrences ?q1 k \<le> occurrences q k" if "k \<noteq> jid job" for k
      using that by (simp add: occurrences_def starters_resume) (simp add: resume_def)
    show "set (waitingQueue ?q1) \<subseteq> insert (jid job) (set (waitingQueue q))"
      by (auto simp: resume_def)
    show "y \<in> set (suspended q)
            \<or> (jid (jobOf y) = jid job \<and> attempt (metrics (jobOf y)) = invocations q (jid job))"
      if "y \<in> set (suspended ?q1)" "isStarter y" for y
      using that set_remove1_subset [of "AwaitExecutor job ctx" "suspended q"]
      by (auto simp: resume_def)
  qed simp_all
  then have "wellFormed (publishJobs (emit (JobRetried ?j (attempt (metrics ?j) + 1)) ?q1))"
    by (simp add: wellFormed_emit)
  then have "wellFormed ((publishJobs (emit (JobRetried ?j (attempt (metrics ?j) + 1)) ?q1))
                 \<lparr>suspended := suspended (publishJobs
                       (emit (JobRetried ?j (attempt (metrics ?j) + 1)) ?q1))
                     @ [AwaitRetryDelay job]\<rparr>)"
    by (rule wellFormed_suspend_other) simp
  then show ?thesis using True
    by (simp add: handleJobFailure_def Let_def resume_def)
qed

lemma handleJobFailure_resumed_wellFormed:
  assumes wf: "wellFormed q"
  shows "wellFormed (handleJobFailure_resumed now job (resume (AwaitRetryDelay job) q))"
  unfolding handleJobFailure_resumed_def Let_def
  by (intro wellFormed_suspend_other processQueue_wellFormed wellFormed_resume wf) simp

lemma processQueue_resumed_wellFormed:
  assumes wf: "wellFormed q" and x: "AwaitThrottle job ctx \<in> set (suspended q)"
  shows "wellFormed (processQueue_resumed now job ctx (resume (AwaitThrottle job ctx) q))"
proof -
  note t = resumed_token [OF wf x, simplified]
  let ?q1 = "(resume (AwaitThrottle job ctx) q)\<lparr>lastStartTimestamp := now\<rparr>"
  have "wellFormed ?q1" using wellFormed_resume [OF wf] by simp
  moreover have "occurrences ?q1 (jid job) = 0"
    using t(1) by (simp add: occurrences_def)
  moreover have "map_of (jobs ?q1) (jid job) \<noteq> None"
    using t(3) by (simp add: resume_def)
  moreover have "attempt (metrics job) = invocations ?q1 (jid job)"
    using t(4) by (simp add: resume_def)
  ultimately have "wellFormed (startJob now job ctx ?q1)"
    by (rule wellFormed_startJob)
  then show ?thesis
    unfolding processQueue_resumed_def by (rule processLoop_wellFormed)
qed

lemma fire_wellFormed:
  assumes "wellFormed q" "fire now a q = Some q'"
  shows "wellFormed q'"
proof (cases a)
  case Start
  then show ?thesis using assms by (auto simp: start_def processQueue_wellFormed)
next
  case Stop
  then show ?thesis using assms by (auto simp: stop_def)
next
  case (Enqueue uuid input)
  then show ?thesis using assms by (auto simp: enqueue_wellFormed split: if_splits)
next
  case (Cancel jobId)
  then show ?thesis using assms by (auto simp: cancel_wellFormed)
next
  case CancelAll
  then show ?thesis using assms by (auto simp: cancelAll_wellFormed)
next
  case (ExecutorResolves job ctx res)
  then show ?thesis using assms by (auto simp: executeJob_resolved_wellFormed split: if_splits)
next
  case (ExecutorRejects job ctx err)
  then show ?thesis using assms by (auto simp: handleJobFailure_wellFormed split: if_splits)
next
  case (RetryDelayElapsed job)
  then show ?thesis using assms
    by (auto simp: handleJobFailure_resumed_wellFormed split: if_splits)
next
  case (FailureHandled job)
  then show ?thesis using assms
    by (auto simp: executeJob_finally_wellFormed wellFormed_resume split: if_splits)
next
  case (ThrottleElapsed job ctx)
  then show ?thesis using assms by (auto simp: processQueue_resumed_wellFormed split: if_splits)
qed

lemma reachable_wellFormed: "reachable p q \<Longrightarrow> wellFormed q"
proof (induction rule: reachable.induct)
  case reachable_new
  then show ?case
    by (simp add: wellFormed_def newJobQueue_def occurrences_def starters_def invocations_def)
next
  case (reachable_fire q now a q')
  then show ?case using fire_wellFormed by blast
qed

lemma undisturbed_trans:
  "undisturbed k q q1 \<Longrightarrow> undisturbed k q1 q2 \<Longrightarrow> undisturbed k q q2"
  by (simp add: undisturbed_def)

lemma undisturbed_frame:
  assumes "occurrences q k = 0"
  shows "undisturbed k q (q\<lparr>activeJobs := c\<rparr>)"
    and "undisturbed k q (q\<lparr>processing := e\<rparr>)"
    and "undisturbed k q (q\<lparr>running := f\<rparr>)"
    and "undisturbed k q (publishJobs q)"
    and "undisturbed k q (emit ev q)"
    and "undisturbed k q (resume x q)"
    and "undisturbed k q (q\<lparr>waitingQueue := tl (waitingQueue q)\<rparr>)"
proof -
  have "occurrences (resume x q) k \<le> occurrences q k"
    by (simp add: occurrences_def starters_resume) (simp add: resume_def)
  then show "undisturbed k q (resume x q)"
    using assms by (simp add: undisturbed_def resume_def)
  have "occurrences (q\<lparr>waitingQueue := tl (waitingQueue q)\<rparr>) k \<le> occurrences q k"
    by (cases "waitingQueue q") (simp_all add: occurrences_def)
  then show "undisturbed k q (q\<lparr>waitingQueue := tl (waitingQueue q)\<rparr>)"
    using assms by (simp add: undisturbed_def)
qed (use assms in \<open>simp_all add: undisturbed_def occurrences_def\<close>)

lemma processLoop_undisturbed:
  "wellFormed q \<Longrightarrow> occurrences q k = 0 \<Longrightarrow> undisturbed k q (processLoop now q)"
proof (induction now q rule: processLoop_cases)
  case (exit now q)
  then show ?case by (simp add: processLoop_exit undisturbed_frame)
next
  case (break now q)
  then show ?case
    using undisturbed_frame(7) [of q k] by (simp add: processLoop_break undisturbed_def occurrences_def)
next
  case (continue now q)
  have u: "undisturbed k q (q\<lparr>waitingQueue := tl (waitingQueue q)\<rparr>)"
    using continue.prems(2) by (rule undisturbed_frame)
  then have "undisturbed k (q\<lparr>waitingQueue := tl (waitingQueue q)\<rparr>)
               (processLoop now (q\<lparr>waitingQueue := tl (waitingQueue q)\<rparr>))"
    using continue.IH wellFormed_tl [OF continue.prems(1)] by (simp add: undisturbed_def)
  with u show ?case
    unfolding processLoop_continue [OF continue.hyps] by (rule undisturbed_trans)
next
  case (throttle now q job ctx)
  note h = head_token [OF throttle(8) throttle(3) throttle(5)]
  have u: "undisturbed k q (q\<lparr>waitingQueue := tl (waitingQueue q)\<rparr>)"
    using throttle(9) by (rule undisturbed_frame)
  have "0 < occurrences q (hd (waitingQueue q))"
    using throttle(3) by (simp add: occurrences_def count_list_pos)
  then have "k \<noteq> jid job" using throttle(9) h(1) by auto
  then have "undisturbed k q (q\<lparr>waitingQueue := tl (waitingQueue q),
                 suspended := suspended q @ [AwaitThrottle job ctx]\<rparr>)"
    using u by (simp add: undisturbed_def occurrences_def starters_def)
  then show ?case unfolding processLoop_throttle [OF throttle.hyps] .
next
  case (start now q job ctx)
  note wf = start(9) and ne = start(3) and job = start(5)
  note h = head_token [OF wf ne job]
  let ?q1 = "q\<lparr>waitingQueue := tl (waitingQueue q), lastStartTimestamp := now\<rparr>"
  have u: "undisturbed k q (q\<lparr>waitingQueue := tl (waitingQueue q)\<rparr>)"
    using start(10) by (rule undisturbed_frame)
  have "0 < occurrences q (hd (waitingQueue q))"
    using ne by (simp add: occurrences_def count_list_pos)
  then have neq: "k \<noteq> jid job" using start(10) h(1) by auto
  have u2: "undisturbed k q (startJob now job ctx ?q1)"
    using u neq by (simp add: undisturbed_def occurrences_startJob update_conv')
       (simp add: occurrences_def)
  have wf1: "wellFormed ?q1" using wellFormed_tl [OF wf] by simp
  have "wellFormed (startJob now job ctx ?q1)"
  proof (rule wellFormed_startJob [OF wf1])
    show "occurrences ?q1 (jid job) = 0" using h by (simp add: occurrences_def)
    show "map_of (jobs ?q1) (jid job) \<noteq> None" using job h(1) by simp
    show "attempt (metrics job) = invocations ?q1 (jid job)" using h(1,2) by simp
  qed
  then have "undisturbed k (startJob now job ctx ?q1) (processLoop now (startJob now job ctx ?q1))"
    using start.IH u2 by (simp add: undisturbed_def)
  with u2 show ?case
    unfolding processLoop_start [OF start.hyps] by (rule undisturbed_trans)
qed

lemma processQueue_undisturbed:
  "wellFormed q \<Longrightarrow> occurrences q k = 0 \<Longrightarrow> undisturbed k q (processQueue now q)"
  using processLoop_undisturbed [of "q\<lparr>processing := True\<rparr>" k now]
  by (simp add: processQueue_def undisturbed_def occurrences_def)

lemma occurrences_frame [simp]:
  "occurrences (q\<lparr>jobs := a\<rparr>) k = occurrences q k"
  "occurrences (q\<lparr>activeJobs := c\<rparr>) k = occurrences q k"
  "occurrences (q\<lparr>processing := e\<rparr>) k = occurrences q k"
  "occurrences (q\<lparr>running := f\<rparr>) k = occurrences q k"
  "occurrences (q\<lparr>lastStartTimestamp := g\<rparr>) k = occurrences q k"
  "occurrences (q\<lparr>contextByJob := h\<rparr>) k = occurrences q k"
  "occurrences (q\<lparr>completedDurations := i\<rparr>) k = occurrences q k"
  "occurrences (q\<lparr>completionHistory := j\<rparr>) k = occurrences q k"
  "occurrences (emit ev q) k = occurrences q k"
  "occurrences (publishJobs q) k = occurrences q k"
  "occurrences (trackMetrics now job q) k = occurrences q k"
  by (simp_all add: occurrences_def starters_def)

lemma occurrences_resume_le: "occurrences (resume x q) k \<le> occurrences q k"
  by (simp add: occurrences_def starters_resume) (simp add: resume_def)

lemma undisturbedI:
  "occurrences q' k \<le> occurrences q k \<Longrightarrow> occurrences q k = 0 \<Longrightarrow>
   map_of (jobs q') k = map_of (jobs q) k \<Longrightarrow> undisturbed k q q'"
  by (simp add: undisturbed_def)

lemma executeJob_finally_undisturbed:
  assumes "wellFormed q" "occurrences q k = 0"
  shows "undisturbed k q (executeJob_finally now job q)"
proof -
  let ?q1 = "publishJobs (q\<lparr>activeJobs := AList.delete (jid job) (activeJobs q)\<rparr>)"
  have "undisturbed k q ?q1" using assms(2) by (simp add: undisturbed_def)
  moreover have "undisturbed k ?q1 (processQueue now ?q1)"
    using assms by (intro processQueue_undisturbed) simp_all
  ultimately show ?thesis
    unfolding executeJob_finally_def by (rule undisturbed_trans)
qed

lemma cancel_other:
  assumes "jobId \<noteq> k"
  shows "occurrences (cancel now jobId q) k = occurrences q k"
    and "map_of (jobs (cancel now jobId q)) k = map_of (jobs q) k"
  using assms
  by (auto simp: cancel_def Let_def occurrences_def starters_def count_list_remove1_if update_conv'
        split: option.splits)

lemma cancel_same:
  assumes "map_of (jobs q) k = Some j"
  shows "occurrences (cancel now k q) k \<le> occurrences q k"
    and "map_of (jobs (cancel now k q)) k = Some j
         \<or> map_of (jobs (cancel now k q)) k = Some (cancelOf now j)"
  using assms
  by (auto simp: cancel_def Let_def occurrences_def starters_def count_list_remove1_if update_conv'
        cancelOf_def split: option.splits)

lemma cancelAll_undisturbed:
  assumes "wellFormed q" "occurrences q k = 0"
  shows "undisturbed k q (cancelAll now q)"
proof -
  have "k \<notin> set ids \<Longrightarrow> occurrences q0 k = 0 \<Longrightarrow>
        undisturbed k q0 (foldl (\<lambda>q' jobId. cancel now jobId q') q0 ids)" for ids q0
  proof (induction ids arbitrary: q0)
    case Nil
    then show ?case by (simp add: undisturbed_def)
  next
    case (Cons a ids)
    have "undisturbed k q0 (cancel now a q0)"
      using Cons.prems cancel_other [of a k now q0] by (auto simp: undisturbed_def)
    moreover have "undisturbed k (cancel now a q0)
                     (foldl (\<lambda>q' jobId. cancel now jobId q') (cancel now a q0) ids)"
      using Cons.prems Cons.IH [of "cancel now a q0"] cancel_other [of a k now q0] by auto
    ultimately show ?case
      using undisturbed_trans by fastforce
  qed
  moreover have "k \<notin> set (waitingQueue q)"
    using assms(2) by (simp add: occurrences_def count_list_0_iff)
  ultimately show ?thesis using assms(2) by (simp add: cancelAll_def)
qed

lemma starter_other:
  assumes "x \<in> set (suspended q)" "isStarter x" "occurrences q k = 0"
  shows "jid (jobOf x) \<noteq> k"
  using starters_pos [OF assms(1,2)] assms(3) by (auto simp: occurrences_def)

lemma fire_dormant:
  assumes wf: "wellFormed q" and dorm: "occurrences q k = 0"
    and known: "map_of (jobs q) k = Some j" and f: "fire now a q = Some q'"
  shows "occurrences q' k = 0
         \<and> (map_of (jobs q') k = Some j \<or> map_of (jobs q') k = Some (cancelOf now j))"
proof -
  have same: "undisturbed k q q' \<Longrightarrow> ?thesis"
    using known by (simp add: undisturbed_def)
  show ?thesis
  proof (cases a)
    case Start
    have "undisturbed k q (start now q)"
      using processQueue_undisturbed [of "q\<lparr>running := True\<rparr>" k now] wf dorm
      by (simp add: start_def undisturbed_def)
    then show ?thesis using same f Start by simp
  next
    case Stop
    then show ?thesis using same f dorm by (auto simp: stop_def undisturbed_def)
  next
    case (Enqueue uuid input)
    with f have fresh: "uuid \<notin> set (map fst (jobs q))" and q': "q' = enqueue now uuid input q"
      by (auto split: if_splits)
    have "uuid \<noteq> k" using fresh_identifier(1) [OF wf fresh] known by auto
    then have u1: "undisturbed k q (enqueued now uuid input q)"
      using dorm by (simp add: undisturbed_def occurrences_def starters_def update_conv')
    then have "undisturbed k (enqueued now uuid input q) (processQueue now (enqueued now uuid input q))"
      by (intro processQueue_undisturbed enqueued_wellFormed wf fresh) (simp add: undisturbed_def)
    with u1 have "undisturbed k q q'"
      unfolding q' enqueue_eq by (rule undisturbed_trans)
    then show ?thesis by (rule same)
  next
    case (Cancel jobId)
    with f have q': "q' = cancel now jobId q" by simp
    show ?thesis
    proof (cases "jobId = k")
      case True
      then show ?thesis using cancel_same [OF known, of now] dorm q' by simp
    next
      case False
      then show ?thesis using cancel_other [OF False, of now q] dorm known q' by simp
    qed
  next
    case CancelAll
    then show ?thesis using same f cancelAll_undisturbed [OF wf dorm] by auto
  next
    case (ExecutorResolves job ctx res)
    with f have x: "AwaitExecutor job ctx \<in> set (suspended q)"
      and q': "q' = executeJob_resolved now job res (resume (AwaitExecutor job ctx) q)"
      by (auto split: if_splits)
    have neq: "jid job \<noteq> k" using starter_other [OF x _ dorm] by simp
    let ?r = "resume (AwaitExecutor job ctx) q"
    let ?cj = "job\<lparr>status := (if rstatus res = OK then Succeeded
                                   else if rstatus res = TIMEOUT then Failed else Failed),
                     metrics := (metrics job)\<lparr>completedAt := Some now,
                        elapsedMs := Some (case relapsedMs res of
                           Some e \<Rightarrow> e
                         | None \<Rightarrow> computeDuration
                               (Some (case startedAt (metrics job) of
                                        Some s \<Rightarrow> s | None \<Rightarrow> queuedAt (metrics job))) now)\<rparr>,
                     result := Some res, error := rerror res\<rparr>"
    let ?pre = "emit (JobCompleted ?cj) (trackMetrics now ?cj
                  (?r\<lparr>jobs := AList.update (jid job) ?cj (jobs ?r)\<rparr>))"
    have wfp: "wellFormed ?pre"
      using wellFormed_settle [OF wf x, of ?cj] by (simp add: wellFormed_emit)
    have u1: "undisturbed k q ?pre"
      using neq dorm occurrences_resume_le [of "AwaitExecutor job ctx" q k]
      by (intro undisturbedI) (simp_all add: update_conv' resume_def)
    then have "undisturbed k ?pre (executeJob_finally now job ?pre)"
      by (intro executeJob_finally_undisturbed wfp) (simp add: undisturbed_def)
    with u1 have "undisturbed k q (executeJob_finally now job ?pre)"
      by (rule undisturbed_trans)
    then show ?thesis using same q' by (simp add: executeJob_resolved_def Let_def)
  next
    case (ExecutorRejects job ctx err)
    with f have x: "AwaitExecutor job ctx \<in> set (suspended q)"
      and q': "q' = handleJobFailure now job err (resume (AwaitExecutor job ctx) q)"
      by (auto split: if_splits)
    have neq: "jid job \<noteq> k" using starter_other [OF x _ dorm] by simp
    have "undisturbed k q q'"
      unfolding q'
      using neq dorm occurrences_resume_le [of "AwaitExecutor job ctx" q k]
      by (intro undisturbedI)
         (simp_all add: handleJobFailure_def Let_def occurrences_def starters_def update_conv',
          simp_all add: resume_def)
    then show ?thesis by (rule same)
  next
    case (RetryDelayElapsed job)
    with f have q': "q' = handleJobFailure_resumed now job (resume (AwaitRetryDelay job) q)"
      by (auto split: if_splits)
    let ?r = "resume (AwaitRetryDelay job) q"
    have u1: "undisturbed k q ?r" using dorm by (rule undisturbed_frame)
    then have u2: "undisturbed k ?r (processQueue now ?r)"
      by (intro processQueue_undisturbed wellFormed_resume wf) (simp add: undisturbed_def)
    have "undisturbed k q (processQueue now ?r)"
      using u1 u2 by (rule undisturbed_trans)
    then have "undisturbed k q q'"
      unfolding q' handleJobFailure_resumed_def Let_def
      by (simp add: undisturbed_def occurrences_def starters_def)
    then show ?thesis by (rule same)
  next
    case (FailureHandled job)
    with f have q': "q' = executeJob_finally now job (resume (AwaitFailureHandled job) q)"
      by (auto split: if_splits)
    let ?r = "resume (AwaitFailureHandled job) q"
    have u1: "undisturbed k q ?r" using dorm by (rule undisturbed_frame)
    then have "undisturbed k ?r (executeJob_finally now job ?r)"
      by (intro executeJob_finally_undisturbed wellFormed_resume wf) (simp add: undisturbed_def)
    with u1 have "undisturbed k q q'"
      unfolding q' by (rule undisturbed_trans)
    then show ?thesis by (rule same)
  next
    case (ThrottleElapsed job ctx)
    with f have x: "AwaitThrottle job ctx \<in> set (suspended q)"
      and q': "q' = processQueue_resumed now job ctx (resume (AwaitThrottle job ctx) q)"
      by (auto split: if_splits)
    have neq: "jid job \<noteq> k" using starter_other [OF x _ dorm] by simp
    note t = resumed_token [OF wf x, simplified]
    let ?q1 = "(resume (AwaitThrottle job ctx) q)\<lparr>lastStartTimestamp := now\<rparr>"
    have wf1: "wellFormed (startJob now job ctx ?q1)"
    proof (rule wellFormed_startJob)
      show "wellFormed ?q1" using wellFormed_resume [OF wf] by simp
      show "occurrences ?q1 (jid job) = 0" using t(1) by simp
      show "map_of (jobs ?q1) (jid job) \<noteq> None" using t(3) by (simp add: resume_def)
      show "attempt (metrics job) = invocations ?q1 (jid job)" using t(4) by (simp add: resume_def)
    qed
    have u1: "undisturbed k q (startJob now job ctx ?q1)"
      using neq dorm occurrences_resume_le [of "AwaitThrottle job ctx" q k]
      by (intro undisturbedI) (simp_all add: occurrences_startJob update_conv' resume_def)
    then have "undisturbed k (startJob now job ctx ?q1) (processLoop now (startJob now job ctx ?q1))"
      by (intro processLoop_undisturbed wf1) (simp add: undisturbed_def)
    with u1 have "undisturbed k q q'"
      unfolding q' processQueue_resumed_def by (rule undisturbed_trans)
    then show ?thesis by (rule same)
  qed
qed

lemma cancelledFor_fire:
  assumes "wellFormed q" "cancelledFor n k q" "fire now a q = Some q'"
  shows "cancelledFor n k q'"
proof -
  from assms(2) obtain j where dorm: "occurrences q k = 0" and j: "map_of (jobs q) k = Some j"
    and c: "status j = Cancelled" "startedAt (metrics j) = None" "elapsedMs (metrics j) = Some 0"
      "attempt (metrics j) = n"
    by (auto simp: cancelledFor_def)
  from fire_dormant [OF assms(1) dorm j assms(3)] c show ?thesis
    by (auto simp: cancelledFor_def cancelOf_def)
qed

lemma evolves_cancelledFor:
  assumes "evolves q0 q'" "wellFormed q0" "cancelledFor n k q0"
  shows "wellFormed q' \<and> cancelledFor n k q'"
  using assms
proof (induction rule: evolves.induct)
  case evolves_refl
  then show ?case by simp
next
  case (evolves_fire q' now a q'')
  then show ?case using fire_wellFormed cancelledFor_fire by blast
qed

lemma cancel_waiting:
  assumes wf: "wellFormed q" and mem: "jobId \<in> set (waitingQueue q)"
    and na: "jobId \<notin> set (map fst (activeJobs q))"
  shows "\<exists>j. map_of (jobs q) jobId = Some j \<and> status j = Queued
           \<and> startedAt (metrics j) = None \<and> attempt (metrics j) = invocations q jobId
           \<and> map_of (jobs (cancel now jobId q)) jobId = Some (cancelOf now j)"
    and "jobId \<notin> set (waitingQueue (cancel now jobId q))"
    and "cancelledFor (invocations q jobId) jobId (cancel now jobId q)"
proof -
  from wellFormedD(6) [OF wf mem] obtain j where j: "map_of (jobs q) jobId = Some j"
    and st: "status j = Queued" "startedAt (metrics j) = None"
    by blast
  have att: "attempt (metrics j) = invocations q jobId" using wellFormedD(4) [OF wf j] .
  have c: "map_of (jobs (cancel now jobId q)) jobId = Some (cancelOf now j)"
    using j na by (simp add: cancel_def Let_def cancelOf_def update_conv')
  show "\<exists>j. map_of (jobs q) jobId = Some j \<and> status j = Queued
           \<and> startedAt (metrics j) = None \<and> attempt (metrics j) = invocations q jobId
           \<and> map_of (jobs (cancel now jobId q)) jobId = Some (cancelOf now j)"
    using j st att c by blast
  have pos: "0 < count_list (waitingQueue q) jobId" using mem by (simp add: count_list_pos)
  have le: "occurrences q jobId \<le> 1" using wellFormedD(1) [OF wf] .
  from pos le have one: "count_list (waitingQueue q) jobId = 1" and s0: "starters q jobId = 0"
    by (simp_all add: occurrences_def)
  have w: "waitingQueue (cancel now jobId q) = remove1 jobId (waitingQueue q)"
    using j na by (simp add: cancel_def Let_def)
  have c0: "count_list (remove1 jobId (waitingQueue q)) jobId = 0"
    using one mem by (simp add: count_list_remove1_if)
  then show "jobId \<notin> set (waitingQueue (cancel now jobId q))"
    unfolding w using count_list_0_iff [of "remove1 jobId (waitingQueue q)" jobId] by blast
  have "starters (cancel now jobId q) jobId = starters q jobId"
    using j na by (simp add: cancel_def Let_def starters_def)
  then have "occurrences (cancel now jobId q) jobId = 0"
    using c0 s0 w by (simp add: occurrences_def)
  then show "cancelledFor (invocations q jobId) jobId (cancel now jobId q)"
    using c st att by (simp add: cancelledFor_def cancelOf_def)
qed

text \<open>
  What \<open>cancel\<close> does where the active set holds exactly the jobs that are run. In every
  reachable state, for every job that is in the waiting FIFO and not in the active set,
  \<open>cancel(jobId)\<close> removes it from the FIFO and sets its status to cancelled with
  \<open>elapsedMs = 0\<close>, and in no later state does the job have another status, so it never
  reaches running; for every job in the active set, \<open>cancel(jobId)\<close> changes no state.
\<close>

lemma cancel_waiting_or_active:
  assumes "reachable p q"
  shows "(jobId \<in> set (waitingQueue q) \<and> jobId \<notin> set (map fst (activeJobs q)) \<longrightarrow>
            jobId \<notin> set (waitingQueue (cancel now jobId q))
            \<and> map_option status (getJob (cancel now jobId q) jobId) = Some Cancelled
            \<and> map_option (\<lambda>j. elapsedMs (metrics j)) (getJob (cancel now jobId q) jobId)
                = Some (Some 0)
            \<and> (\<forall>q'. evolves (cancel now jobId q) q' \<longrightarrow>
                  map_option status (getJob q' jobId) = Some Cancelled))
         \<and> (jobId \<in> set (map fst (activeJobs q)) \<longrightarrow> cancel now jobId q = q)"
proof (intro conjI impI allI)
  assume "jobId \<in> set (map fst (activeJobs q))"
  then show "cancel now jobId q = q" by (simp add: cancel_def split: option.splits)
next
  assume a: "jobId \<in> set (waitingQueue q) \<and> jobId \<notin> set (map fst (activeJobs q))"
  note wf = reachable_wellFormed [OF assms]
  note c = cancel_waiting [OF wf a [THEN conjunct1] a [THEN conjunct2], of now]
  show "jobId \<notin> set (waitingQueue (cancel now jobId q))" by (rule c(2))
  show "map_option status (getJob (cancel now jobId q) jobId) = Some Cancelled"
    using c(3) by (auto simp: cancelledFor_def getJob_def)
  show "map_option (\<lambda>j. elapsedMs (metrics j)) (getJob (cancel now jobId q) jobId) = Some (Some 0)"
    using c(3) by (auto simp: cancelledFor_def getJob_def)
  fix q'
  assume "evolves (cancel now jobId q) q'"
  from evolves_cancelledFor [OF this cancel_wellFormed [OF wf] c(3)]
  show "map_option status (getJob q' jobId) = Some Cancelled"
    by (auto simp: cancelledFor_def getJob_def)
qed

text \<open>
  C4, amended. In every reachable state, a job that \<open>cancel\<close> takes out of the waiting
  FIFO (it is in the FIFO and not in the active set) is not started at that moment: its
  status is queued and its \<open>startedAt\<close> is unset. In every later state it is cancelled,
  \<open>startedAt\<close> is still unset, and its attempt count is still the number of calls of its
  executor made before the cancellation, none being made afterwards: 0 for a job that was
  never started, more for a job that was waiting for a retry.
\<close>

theorem cancelled_from_fifo_never_started:
  assumes "reachable p q" and "jobId \<in> set (waitingQueue q)"
    and "jobId \<notin> set (map fst (activeJobs q))" and "evolves (cancel now jobId q) q'"
  shows "map_option status (getJob q jobId) = Some Queued
       \<and> map_option (\<lambda>j. startedAt (metrics j)) (getJob q jobId) = Some None
       \<and> map_option (\<lambda>j. attempt (metrics j)) (getJob q jobId) = Some (invocations q jobId)
       \<and> map_option status (getJob q' jobId) = Some Cancelled
       \<and> map_option (\<lambda>j. startedAt (metrics j)) (getJob q' jobId) = Some None
       \<and> map_option (\<lambda>j. attempt (metrics j)) (getJob q' jobId) = Some (invocations q jobId)
       \<and> invocations q' jobId = invocations q jobId"
proof -
  note wf = reachable_wellFormed [OF assms(1)]
  note c = cancel_waiting [OF wf assms(2,3), of now]
  from evolves_cancelledFor [OF assms(4) cancel_wellFormed [OF wf] c(3)]
  have wf': "wellFormed q'" and cf: "cancelledFor (invocations q jobId) jobId q'"
    by simp_all
  from cf obtain j' where j': "map_of (jobs q') jobId = Some j'" "status j' = Cancelled"
    "startedAt (metrics j') = None" "attempt (metrics j') = invocations q jobId"
    by (auto simp: cancelledFor_def)
  have "invocations q' jobId = invocations q jobId"
    using wellFormedD(4) [OF wf' j'(1)] j'(4) by simp
  then show ?thesis using c(1) j' by (auto simp: getJob_def)
qed

lemma oneWaiting_reachable: "reachable (queueOptions 1 1) oneWaiting"
proof -
  have "schedule waitingSchedule (newJobQueue (queueOptions 1 1)) = Some oneWaiting"
    by code_simp
  then show ?thesis using schedule_reachable reachable_new by blast
qed

lemma succeededAndCancelled_evolves: "evolves (cancel 3 ''B'' oneWaiting) succeededAndCancelled"
proof -
  have "fire 50 (ExecutorResolves firstAttempt exampleContext okResult) (cancel 3 ''B'' oneWaiting)
          = Some succeededAndCancelled"
    by code_simp
  then show ?thesis using evolves_fire evolves_refl by blast
qed

lemma cancel_waiting_or_active_at_oneWaiting:
  "''B'' \<in> set (waitingQueue oneWaiting) \<and> ''B'' \<notin> set (map fst (activeJobs oneWaiting))
   \<and> ''B'' \<notin> set (waitingQueue (cancel 3 ''B'' oneWaiting))
   \<and> map_option status (getJob (cancel 3 ''B'' oneWaiting) ''B'') = Some Cancelled
   \<and> map_option status (getJob succeededAndCancelled ''B'') = Some Cancelled
   \<and> ''A'' \<in> set (map fst (activeJobs oneWaiting))
   \<and> cancel 3 ''A'' oneWaiting = oneWaiting"
proof -
  have b: "''B'' \<in> set (waitingQueue oneWaiting) \<and> ''B'' \<notin> set (map fst (activeJobs oneWaiting))"
    by code_simp
  have a: "''A'' \<in> set (map fst (activeJobs oneWaiting))"
    by code_simp
  show ?thesis
    using a b succeededAndCancelled_evolves
      cancel_waiting_or_active [OF oneWaiting_reachable, of "''B''" 3]
      cancel_waiting_or_active [OF oneWaiting_reachable, of "''A''" 3]
    by blast
qed

theorem cancelled_from_fifo_never_started_witness:
  "''B'' \<in> set (waitingQueue oneWaiting) \<and> ''B'' \<notin> set (map fst (activeJobs oneWaiting))
   \<and> map_option status (getJob succeededAndCancelled ''B'') = Some Cancelled
   \<and> map_option (\<lambda>j. startedAt (metrics j)) (getJob succeededAndCancelled ''B'') = Some None
   \<and> map_option (\<lambda>j. attempt (metrics j)) (getJob succeededAndCancelled ''B'') = Some 0
   \<and> invocations succeededAndCancelled ''B'' = 0"
proof -
  have b1: "''B'' \<in> set (waitingQueue oneWaiting)" by code_simp
  have b2: "''B'' \<notin> set (map fst (activeJobs oneWaiting))" by code_simp
  have i: "invocations oneWaiting ''B'' = 0" by code_simp
  show ?thesis
    using b1 b2
      cancelled_from_fifo_never_started
        [OF oneWaiting_reachable b1 b2 succeededAndCancelled_evolves]
    unfolding i by simp
qed

text \<open>
  C4, counterexample. With one slot and a retry budget of 2, job A fails once, is queued
  again behind job B and is cancelled while it waits: a cancelled job whose executor was
  called once and whose attempt count is 1. And a job that has succeeded and is cancelled
  afterwards is a cancelled job with \<open>startedAt\<close> set.
\<close>

theorem cancelled_job_was_started_counterexample:
  "schedule cancelAfterRetrySchedule (newJobQueue (queueOptions 1 2)) = Some cancelledAfterRetry
   \<and> status (the (getJob cancelledAfterRetry ''A'')) = Cancelled
   \<and> attempt (metrics (the (getJob cancelledAfterRetry ''A''))) = 1
   \<and> invocations cancelledAfterRetry ''A'' = 1
   \<and> status (the (getJob (cancel 70 ''A'' succeededAndCancelled) ''A'')) = Cancelled
   \<and> startedAt (metrics (the (getJob (cancel 70 ''A'' succeededAndCancelled) ''A''))) = Some 1
   \<and> invocations (cancel 70 ''A'' succeededAndCancelled) ''A'' = 1"
  by code_simp

text \<open>
  C5, at the failing inputs \<open>retryWindowSchedule\<close> and \<open>retryThenTwoMore\<close>, both with
  \<open>retryCount = 2\<close>. During the retry delay job A is in the waiting FIFO with status
  queued and is not run, but it is still in the active set: \<open>cancel\<close> rejects the call
  and leaves the state as it is, A still in the FIFO. And in \<open>threeRunning\<close> job A has
  status running, with a call of its executor under way, but it is no longer in the
  active set: \<open>cancel\<close> does not reject the call and stores A as cancelled with
  \<open>elapsedMs = 0\<close>.
\<close>

theorem cancel_on_the_retry_path:
  "schedule retryWindowSchedule (newJobQueue (queueOptions 4 2)) = Some retryWindow
   \<and> ''A'' \<in> set (waitingQueue retryWindow)
   \<and> ''A'' \<in> set (map fst (activeJobs retryWindow))
   \<and> status (the (getJob retryWindow ''A'')) = Queued
   \<and> suspended retryWindow = [AwaitRetryDelay firstAttempt]
   \<and> cancel 50 ''A'' retryWindow = retryWindow
   \<and> schedule retryThenTwoMore (newJobQueue (queueOptions 2 2)) = Some threeRunning
   \<and> status (the (getJob threeRunning ''A'')) = Running
   \<and> ''A'' \<notin> set (map fst (activeJobs threeRunning))
   \<and> status (the (getJob (cancel 200 ''A'' threeRunning) ''A'')) = Cancelled
   \<and> elapsedMs (metrics (the (getJob (cancel 200 ''A'' threeRunning) ''A''))) = Some 0"
  by code_simp

subsection \<open>The retry test\<close>

lemma attempted_frame [simp]:
  "attempted (q\<lparr>jobs := a\<rparr>) = attempted q"
  "attempted (q\<lparr>waitingQueue := b\<rparr>) = attempted q"
  "attempted (q\<lparr>activeJobs := c\<rparr>) = attempted q"
  "attempted (q\<lparr>processing := e\<rparr>) = attempted q"
  "attempted (q\<lparr>running := f\<rparr>) = attempted q"
  "attempted (q\<lparr>lastStartTimestamp := g\<rparr>) = attempted q"
  "attempted (q\<lparr>contextByJob := h\<rparr>) = attempted q"
  "attempted (q\<lparr>completedDurations := i\<rparr>) = attempted q"
  "attempted (q\<lparr>completionHistory := j\<rparr>) = attempted q"
  "attempted (emit ev q) = attempted q"
  "attempted (publishJobs q) = attempted q"
  "attempted (trackMetrics now job q) = attempted q"
  by (simp_all add: attempted_def)

lemma attempted_suspend:
  "attempted q \<Longrightarrow> (isExecutorCall x \<Longrightarrow> 0 < attempt (metrics (jobOf x))) \<Longrightarrow>
   attempted (q\<lparr>suspended := suspended q @ [x]\<rparr>)"
  by (auto simp: attempted_def)

lemma attempted_resume: "attempted q \<Longrightarrow> attempted (resume x q)"
  using set_remove1_subset [of x "suspended q"] by (auto simp: attempted_def resume_def)

lemma attempted_startJob: "attempted q \<Longrightarrow> attempted (startJob now job c q)"
  by (auto simp: attempted_def)

lemma processLoop_attempted: "attempted q \<Longrightarrow> attempted (processLoop now q)"
proof (induction now q rule: processLoop_cases)
  case (exit now q)
  then show ?case by (simp add: processLoop_exit)
next
  case (break now q)
  then show ?case by (simp add: processLoop_break)
next
  case (continue now q)
  then show ?case unfolding processLoop_continue [OF continue.hyps] by simp
next
  case (throttle now q job ctx)
  then show ?case unfolding processLoop_throttle [OF throttle.hyps] by (simp add: attempted_def)
next
  case (start now q job ctx)
  then show ?case unfolding processLoop_start [OF start.hyps] by (simp add: attempted_startJob)
qed

lemma processQueue_attempted: "attempted q \<Longrightarrow> attempted (processQueue now q)"
  by (simp add: processQueue_def processLoop_attempted)

lemma cancel_attempted: "attempted q \<Longrightarrow> attempted (cancel now jobId q)"
  by (simp add: cancel_def Let_def split: option.splits)

lemma cancelAll_attempted: "attempted q \<Longrightarrow> attempted (cancelAll now q)"
proof -
  have "attempted q \<Longrightarrow> attempted (foldl (\<lambda>q' jobId. cancel now jobId q') q ids)" for ids
    by (induction ids arbitrary: q) (simp_all add: cancel_attempted)
  then show "attempted q \<Longrightarrow> attempted (cancelAll now q)" by (simp add: cancelAll_def)
qed

lemma executeJob_finally_attempted: "attempted q \<Longrightarrow> attempted (executeJob_finally now job q)"
  by (simp add: executeJob_finally_def processQueue_attempted)

lemma fire_attempted:
  assumes "attempted q" "fire now a q = Some q'"
  shows "attempted q'"
proof (cases a)
  case Start
  then show ?thesis using assms by (auto simp: start_def processQueue_attempted)
next
  case Stop
  then show ?thesis using assms by (auto simp: stop_def)
next
  case (Enqueue uuid input)
  then show ?thesis using assms
    by (auto simp: enqueue_def Let_def processQueue_attempted split: if_splits)
next
  case (Cancel jobId)
  then show ?thesis using assms by (auto simp: cancel_attempted)
next
  case CancelAll
  then show ?thesis using assms by (auto simp: cancelAll_attempted)
next
  case (ExecutorResolves job ctx res)
  then show ?thesis using assms
    by (auto simp: executeJob_resolved_def Let_def attempted_resume
          intro!: executeJob_finally_attempted split: if_splits)
next
  case (ExecutorRejects job ctx err)
  with assms have "attempted (resume (AwaitExecutor job ctx) q)"
    and "q' = handleJobFailure now job err (resume (AwaitExecutor job ctx) q)"
    by (auto simp: attempted_resume split: if_splits)
  then show ?thesis by (simp add: handleJobFailure_def Let_def attempted_def)
next
  case (RetryDelayElapsed job)
  with assms have "attempted (processQueue now (resume (AwaitRetryDelay job) q))"
    and "q' = handleJobFailure_resumed now job (resume (AwaitRetryDelay job) q)"
    by (auto simp: attempted_resume processQueue_attempted split: if_splits)
  then show ?thesis by (simp add: handleJobFailure_resumed_def Let_def attempted_def)
next
  case (FailureHandled job)
  then show ?thesis using assms
    by (auto simp: attempted_resume intro!: executeJob_finally_attempted split: if_splits)
next
  case (ThrottleElapsed job ctx)
  then show ?thesis using assms
    by (auto simp: processQueue_resumed_def attempted_resume
          intro!: processLoop_attempted attempted_startJob split: if_splits)
qed

lemma reachable_attempted: "reachable p q \<Longrightarrow> attempted q"
proof (induction rule: reachable.induct)
  case reachable_new
  then show ?case by (simp add: attempted_def newJobQueue_def)
next
  case (reachable_fire q now a q')
  then show ?case using fire_attempted by blast
qed

text \<open>
  With \<open>retryCount\<close> at most 1, in every reachable state and for every call of the
  executor that is under way, a rejection settles the job as failed and leaves the FIFO
  as it is: no job is ever retried. This is the general form of the evaluation given for
  C1.
\<close>

lemma never_retried_when_retryCount_le_1:
  assumes "reachable p q" and "retryCount (options q) \<le> 1"
    and "AwaitExecutor job ctx \<in> set (suspended q)"
  shows "fire now (ExecutorRejects job ctx err) q
           = Some (handleJobFailure now job err (resume (AwaitExecutor job ctx) q))
       \<and> map_option status
           (getJob (handleJobFailure now job err (resume (AwaitExecutor job ctx) q)) (jid job))
           = Some Failed
       \<and> waitingQueue (handleJobFailure now job err (resume (AwaitExecutor job ctx) q))
           = waitingQueue q"
proof -
  have "0 < attempt (metrics job)"
    using reachable_attempted [OF assms(1)] assms(3) by (auto simp: attempted_def)
  then have "\<not> retryCount (options q) - int (attempt (metrics job)) > 0"
    using assms(2) by simp
  then show ?thesis
    using assms(3)
    by (simp add: handleJobFailure_def Let_def getJob_def resume_def update_conv')
qed

text \<open>The number of calls of the executor for a job that always throws, for other
  values of \<open>retryCount\<close>: one call for 0, and \<open>retryCount\<close> calls from 2 on.\<close>

lemma always_throwing_job_other_budgets:
  "invocations (the (alwaysThrowing 4 0)) ''A'' = 1"
  "invocations (the (alwaysThrowing 4 2)) ''A'' = 2"
  "invocations (the (alwaysThrowing 4 3)) ''A'' = 3"
  "invocations (the (alwaysThrowing 1 3)) ''A'' = 3"
  "status (the (getJob (the (alwaysThrowing 4 3)) ''A'')) = Failed"
  by code_simp+

end
